theory Spec2Isabelle
  imports Main
begin

section \<open>The reactive runtime of pointlessly: signals, \<open>$\<close> components, \<open>$bind\<close>, \<open>$if\<close>, \<open>$for\<close>\<close>

text \<open>
  The development embeds the runtime of \<^verbatim>\<open>lib/pointlessly\<close> (the file holding
  \<^verbatim>\<open>signalFactory\<close>, \<^verbatim>\<open>createEmptyComponent\<close>, \<^verbatim>\<open>$\<close> and \<^verbatim>\<open>elementFactory\<close>) and
  \<^verbatim>\<open>util/general\<close> (\<^verbatim>\<open>isSameProps\<close>).

  Conventions of the embedding.
  \<^item> JavaScript objects are compared by reference. Component objects live in a heap
    (\<open>comps\<close>) and are named by their address (\<open>cid\<close>); \<^verbatim>\<open>a !== b\<close> on components is
    inequality of addresses. Closures that are stored and later compared or called
    (listeners, mount cleanups, effect bodies) are named by a number as well.
  \<^item> Every mutation is explicit state passing. The functions of one component instance
    work on its record \<open>inst\<close>; functions that call methods of other components work on
    the \<open>world\<close>.
  \<^item> The host document is kept as parent pointers; its operations succeed, but for
    \<^verbatim>\<open>appendChild\<close> on a text node. Every
    document operation, every method call on a component object, every call of a user
    render function, of a mount effect and of a mount cleanup is appended to the
    \<open>trace\<close> of the world. The trace is the only addition to the state of the source;
    it is what statements about "how many calls" are read from.
  \<^item> A user render function given to \<^verbatim>\<open>$\<close> is represented by the sequence of tool calls
    (\<open>hook\<close>) it makes for given props; the component it returns is taken to be an
    intrinsic element, so rendering it creates a new element. The experimental
    \<^verbatim>\<open>$effect\<close> tool is not part of the embedding.
  \<^item> The children handled by the structural primitives are intrinsic elements, empty
    placeholders and \<^verbatim>\<open>$\<close> instances. The callbacks given to \<^verbatim>\<open>$bind\<close>, \<^verbatim>\<open>$if\<close> and
    \<^verbatim>\<open>$for\<close> are arbitrary functions on the world.
\<close>

subsection \<open>Values and prop objects (\<^verbatim>\<open>util/general\<close>)\<close>

text \<open>Values are compared with \<^verbatim>\<open>Object.is\<close>; on this datatype that is equality:
  \<open>NaN\<close> is the same value as \<open>NaN\<close>, \<open>NegZero\<close> (\<^verbatim>\<open>-0\<close>) is not the same value as
  \<open>Num 0\<close>, and objects and functions are references (\<open>Ref\<close>). \<open>Num n\<close> is the number
  whose value is the integer \<open>n\<close>; it stands for a JavaScript number only when a double
  holds \<open>n\<close> exactly, and numbers with a fraction or an infinite value are not
  represented. No arithmetic is done on values.\<close>

datatype jsval = Undefined | Null | Bool bool | Num int | NaN | NegZero | Str string | Ref nat

text \<open>An object is the list of its own enumerable properties, in insertion order.
  Props are an object or \<^verbatim>\<open>undefined\<close> (a definition without props).\<close>

type_synonym obj = "(string \<times> jsval) list"
type_synonym props = "obj option"

definition object_keys :: "obj \<Rightarrow> string list" where
  "object_keys a = map fst a"

text \<open>\<^verbatim>\<open>a[key]\<close>: a missing property reads as \<^verbatim>\<open>undefined\<close>. Prop objects are object
  literals; keys that \<^verbatim>\<open>Object.prototype\<close> defines (such as \<^verbatim>\<open>toString\<close>), which a missing
  own property would read from the prototype, are not represented.\<close>

definition get_prop :: "obj \<Rightarrow> string \<Rightarrow> jsval" where
  "get_prop a key = (case map_of a key of None \<Rightarrow> Undefined | Some v \<Rightarrow> v)"

definition object_is :: "jsval \<Rightarrow> jsval \<Rightarrow> bool" where
  "object_is x y = (x = y)"

definition isSameProps :: "obj \<Rightarrow> obj \<Rightarrow> bool" where
  "isSameProps a b =
     (if length (object_keys a) \<noteq> length (object_keys b) then False
      else list_all (\<lambda>key. object_is (get_prop a key) (get_prop b key)) (object_keys a))"

text \<open>The comparison as the specification words it: the same own key set, and each
  value equal under \<^verbatim>\<open>Object.is\<close>.\<close>

definition spec_shallow_equal :: "obj \<Rightarrow> obj \<Rightarrow> bool" where
  "spec_shallow_equal a b =
     (set (object_keys a) = set (object_keys b) \<and>
      list_all (\<lambda>key. object_is (get_prop a key) (get_prop b key)) (object_keys a))"

subsection \<open>The \<^verbatim>\<open>Set\<close> of JavaScript\<close>

text \<open>A \<^verbatim>\<open>Set\<close> keeps its entries in insertion order; \<^verbatim>\<open>delete\<close> empties an entry in place
  (\<open>None\<close>), \<^verbatim>\<open>add\<close> of a present value does nothing and of an absent one appends, and
  \<^verbatim>\<open>forEach\<close> walks the entries by index over the live list.\<close>

type_synonym 'a jsset = "'a option list"

definition set_add :: "'a \<Rightarrow> 'a jsset \<Rightarrow> 'a jsset" where
  "set_add x s = (if Some x \<in> set s then s else s @ [Some x])"

definition set_delete :: "'a \<Rightarrow> 'a jsset \<Rightarrow> 'a jsset" where
  "set_delete x s = map (\<lambda>e. if e = Some x then None else e) s"

fun set_elems :: "'a jsset \<Rightarrow> 'a list" where
  "set_elems [] = []"
| "set_elems (None # s) = set_elems s"
| "set_elems (Some x # s) = x # set_elems s"

subsection \<open>Signals, the signal context and the state of a \<^verbatim>\<open>$\<close> instance\<close>

type_synonym cid = nat
type_synonym node = nat
type_synonym lid = nat

record signal =
  sig_value :: jsval
  listeners :: "lid jsset"

text \<open>An entry \<open>(k, l)\<close> of \<open>unsubscribers\<close> is the closure
  \<^verbatim>\<open>() => listeners.delete(listener)\<close> pushed by \<^verbatim>\<open>read\<close> of the signal in hook slot \<open>k\<close>
  for the listener \<open>l\<close>.\<close>

record signal_context =
  currentListener :: "lid option"
  unsubscribers :: "(nat \<times> lid) list"

text \<open>\<open>UseSignal v\<close> is a call \<^verbatim>\<open>$signal(v)\<close>; \<open>UseMount b u\<close> is a call \<^verbatim>\<open>$mount(effect)\<close>
  where the effect is the closure \<open>b\<close> and returns the cleanup \<open>u\<close>, if any.\<close>

datatype hook = UseSignal jsval | UseMount nat "nat option"

text \<open>The variables closed over by one instance made by \<^verbatim>\<open>$(renderer)(props)\<close>.
  \<open>props\<close> is the property of the returned object (the props of creation); \<open>prev\<close> and
  \<open>curr\<close> are \<^verbatim>\<open>propStore\<close>; \<open>signals\<close> is the sparse array of hook slots.\<close>

record inst =
  serial :: nat
  props :: props
  renderer :: "props \<Rightarrow> hook list"
  hasRendered :: bool
  signalIndex :: nat
  signals :: "nat \<rightharpoonup> signal"
  unmounts :: "nat jsset"
  prev :: props
  curr :: props
  signalCtx :: signal_context
  lastRenderResult :: "node option"

subsection \<open>The host document and the trace\<close>

datatype meth = MRender | MDestroy | MReplace cid | MAppend cid | MReload props

datatype event =
    Called cid meth
  | RanRenderer props
  | RanEffect nat
  | RanCleanup nat
  | DomReplaceWith node node
  | DomRemove node
  | DomAppendChild node node

record dom =
  parent :: "node \<rightharpoonup> node"
  is_element :: "node \<Rightarrow> bool"
  next_node :: node
  trace :: "event list"

definition emit :: "event \<Rightarrow> 'a dom_scheme \<Rightarrow> 'a dom_scheme" where
  "emit e d = d\<lparr>trace := trace d @ [e]\<rparr>"

definition createElement :: "'a dom_scheme \<Rightarrow> node \<times> 'a dom_scheme" where
  "createElement d =
     (next_node d, d\<lparr>is_element := (is_element d)(next_node d := True),
                     next_node := Suc (next_node d)\<rparr>)"

text \<open>Text nodes and document fragments are nodes that are not elements.\<close>

definition createTextNode :: "'a dom_scheme \<Rightarrow> node \<times> 'a dom_scheme" where
  "createTextNode d =
     (next_node d, d\<lparr>is_element := (is_element d)(next_node d := False),
                     next_node := Suc (next_node d)\<rparr>)"

definition createDocumentFragment :: "'a dom_scheme \<Rightarrow> node \<times> 'a dom_scheme" where
  "createDocumentFragment d = createTextNode d"

text \<open>\<^verbatim>\<open>old.replaceWith(new)\<close> does nothing to a node without a parent.\<close>

definition dom_replaceWith :: "node \<Rightarrow> node \<Rightarrow> 'a dom_scheme \<Rightarrow> 'a dom_scheme" where
  "dom_replaceWith old new d =
     (let d1 = emit (DomReplaceWith old new) d in
      case parent d1 old of
        None \<Rightarrow> d1
      | Some p \<Rightarrow> if old = new then d1 else d1\<lparr>parent := (parent d1)(old := None, new \<mapsto> p)\<rparr>)"

definition dom_remove :: "node \<Rightarrow> 'a dom_scheme \<Rightarrow> 'a dom_scheme" where
  "dom_remove n d = (let d1 = emit (DomRemove n) d in d1\<lparr>parent := (parent d1)(n := None)\<rparr>)"

definition dom_appendChild :: "node \<Rightarrow> node \<Rightarrow> 'a dom_scheme \<Rightarrow> 'a dom_scheme" where
  "dom_appendChild p c d =
     (let d1 = emit (DomAppendChild p c) d in d1\<lparr>parent := (parent d1)(c \<mapsto> p)\<rparr>)"

definition parentElement :: "'a dom_scheme \<Rightarrow> node \<Rightarrow> node option" where
  "parentElement d n =
     (case parent d n of None \<Rightarrow> None | Some p \<Rightarrow> if is_element d p then Some p else None)"

subsection \<open>\<^verbatim>\<open>signalFactory\<close>: creating and reading a signal\<close>

definition createSignal :: "jsval \<Rightarrow> signal" where
  "createSignal initialValue = \<lparr>sig_value = initialValue, listeners = []\<rparr>"

text \<open>\<^verbatim>\<open>read\<close> of the signal in slot \<open>k\<close>. A getter exists only for a filled slot; on an
  empty one the model returns \<^verbatim>\<open>undefined\<close> and changes nothing.\<close>

definition sig_read :: "nat \<Rightarrow> inst \<Rightarrow> jsval \<times> inst" where
  "sig_read k i =
     (case signals i k of
        None \<Rightarrow> (Undefined, i)
      | Some s \<Rightarrow>
          (case currentListener (signalCtx i) of
             None \<Rightarrow> (sig_value s, i)
           | Some listener \<Rightarrow>
               (sig_value s,
                i\<lparr>signals := (signals i)(k \<mapsto> s\<lparr>listeners := set_add listener (listeners s)\<rparr>),
                  signalCtx := (signalCtx i)\<lparr>unsubscribers :=
                     unsubscribers (signalCtx i) @ [(k, listener)]\<rparr>\<rparr>)))"

subsection \<open>The tools \<^verbatim>\<open>$signal\<close> and \<^verbatim>\<open>$mount\<close>, and the life cycle of an instance\<close>

text \<open>\<^verbatim>\<open>$signal\<close> returns the read/write pair of the signal in the current slot; the
  model returns the slot, which names that signal.\<close>

definition tool_signal :: "jsval \<Rightarrow> inst \<Rightarrow> nat \<times> inst" where
  "tool_signal initialValue i =
     (case signals i (signalIndex i) of
        Some s \<Rightarrow> (signalIndex i, i\<lparr>signalIndex := signalIndex i + 1\<rparr>)
      | None \<Rightarrow>
          (signalIndex i,
           i\<lparr>signals := (signals i)(signalIndex i \<mapsto> createSignal initialValue),
             signalIndex := signalIndex i + 1\<rparr>))"

definition tool_mount :: "nat \<Rightarrow> nat option \<Rightarrow> inst \<Rightarrow> 'a dom_scheme \<Rightarrow> inst \<times> 'a dom_scheme" where
  "tool_mount effect unmount i d =
     (if \<not> hasRendered i then
        (case unmount of
           Some u \<Rightarrow> (i\<lparr>unmounts := set_add u (unmounts i)\<rparr>, emit (RanEffect effect) d)
         | None \<Rightarrow> (i, emit (RanEffect effect) d))
      else (i, d))"

fun run_hook :: "hook \<Rightarrow> inst \<times> 'a dom_scheme \<Rightarrow> inst \<times> 'a dom_scheme" where
  "run_hook (UseSignal v) (i, d) = (snd (tool_signal v i), d)"
| "run_hook (UseMount b u) (i, d) = tool_mount b u i d"

definition updateProps :: "props \<Rightarrow> inst \<Rightarrow> inst" where
  "updateProps nextProps i = i\<lparr>prev := curr i, curr := nextProps\<rparr>"

text \<open>\<^verbatim>\<open>propStore.prev && propStore.curr && isSameProps(...)\<close>, read for its truthiness:
  an object is truthy, \<^verbatim>\<open>undefined\<close> is not.\<close>

definition hasSameProps :: "inst \<Rightarrow> bool" where
  "hasSameProps i =
     (case prev i of
        None \<Rightarrow> False
      | Some a \<Rightarrow> (case curr i of None \<Rightarrow> False | Some b \<Rightarrow> isSameProps a b))"

definition render :: "inst \<Rightarrow> 'a dom_scheme \<Rightarrow> node \<times> inst \<times> 'a dom_scheme" where
  "render i d =
     (let i1 = i\<lparr>signalIndex := 0\<rparr>;
          (i2, d2) = fold run_hook (renderer i1 (curr i1)) (i1, emit (RanRenderer (curr i1)) d);
          i3 = i2\<lparr>hasRendered := True\<rparr>;
          (n, d3) = createElement d2
      in (n, i3\<lparr>lastRenderResult := Some n\<rparr>, d3))"

definition reload :: "props \<Rightarrow> inst \<Rightarrow> 'a dom_scheme \<Rightarrow> inst \<times> 'a dom_scheme" where
  "reload newProps i d =
     (let i1 = updateProps newProps (i\<lparr>signalIndex := 0\<rparr>) in
      case lastRenderResult i1 of
        None \<Rightarrow> (i1, d)
      | Some old \<Rightarrow>
          if \<not> hasSameProps i1 then
            (let (n, i2, d2) = render i1 d in (i2, dom_replaceWith old n d2))
          else (i1, d))"

definition onDestroy :: "inst \<Rightarrow> 'a dom_scheme \<Rightarrow> 'a dom_scheme" where
  "onDestroy i d =
     (let d1 = (case lastRenderResult i of None \<Rightarrow> d | Some n \<Rightarrow> dom_remove n d) in
      fold (\<lambda>unmount. emit (RanCleanup unmount)) (set_elems (unmounts i)) d1)"

text \<open>A fresh instance, as the factory returned by \<^verbatim>\<open>$\<close> builds it.\<close>

definition new_inst :: "nat \<Rightarrow> (props \<Rightarrow> hook list) \<Rightarrow> props \<Rightarrow> inst" where
  "new_inst ser r p =
     \<lparr>serial = ser, props = p, renderer = r, hasRendered = False, signalIndex = 0,
      signals = Map.empty, unmounts = [], prev = p, curr = p,
      signalCtx = \<lparr>currentListener = None, unsubscribers = []\<rparr>,
      lastRenderResult = None\<rparr>"

subsection \<open>Component objects and their methods\<close>

text \<open>\<open>Leaf el\<close> is an intrinsic element with its variable \<^verbatim>\<open>el\<close> (its attributes
  and children are not part of the embedding), \<open>Empty element\<close> the
  placeholder of \<^verbatim>\<open>createEmptyComponent\<close> with its text node, \<open>Custom i\<close> a \<^verbatim>\<open>$\<close> instance.
  The world of a structural primitive holds the heap of components, the document, and
  the instance \<open>owner\<close> whose render function created the primitive (its signal context
  and its signals).\<close>

datatype comp = Leaf "node option" | Empty node | Custom inst

record world = dom +
  comps :: "cid \<Rightarrow> comp"
  next_cid :: cid
  owner :: inst

definition isCustomComponent :: "comp \<Rightarrow> bool" where
  "isCustomComponent v = (case v of Custom i \<Rightarrow> props i \<noteq> None | _ \<Rightarrow> False)"

definition serial_of :: "comp \<Rightarrow> nat option" where
  "serial_of v = (case v of Custom i \<Rightarrow> Some (serial i) | _ \<Rightarrow> None)"

definition props_of :: "comp \<Rightarrow> props" where
  "props_of v = (case v of Custom i \<Rightarrow> props i | _ \<Rightarrow> None)"

definition new_comp :: "comp \<Rightarrow> world \<Rightarrow> cid \<times> world" where
  "new_comp v w = (next_cid w, w\<lparr>comps := (comps w)(next_cid w := v), next_cid := Suc (next_cid w)\<rparr>)"

definition createEmptyComponent :: "world \<Rightarrow> cid \<times> world" where
  "createEmptyComponent w = (let (element, w1) = createTextNode w in new_comp (Empty element) w1)"

definition c_render :: "cid \<Rightarrow> world \<Rightarrow> node \<times> world" where
  "c_render c w0 =
     (let w = emit (Called c MRender) w0 in
      case comps w c of
        Leaf el \<Rightarrow>
          (let (newEl, w1) = createElement w;
               w2 = (case el of None \<Rightarrow> w1 | Some e \<Rightarrow> dom_replaceWith e newEl w1)
           in (newEl, w2\<lparr>comps := (comps w2)(c := Leaf (Some newEl))\<rparr>))
      | Empty element \<Rightarrow> (element, w)
      | Custom i \<Rightarrow>
          (let (n, i1, w1) = render i w in (n, w1\<lparr>comps := (comps w1)(c := Custom i1)\<rparr>)))"

definition c_destroy :: "cid \<Rightarrow> world \<Rightarrow> world" where
  "c_destroy c w0 =
     (let w = emit (Called c MDestroy) w0 in
      case comps w c of
        Leaf el \<Rightarrow> (case el of None \<Rightarrow> w | Some e \<Rightarrow> dom_remove e w)
      | Empty element \<Rightarrow> dom_remove element w
      | Custom i \<Rightarrow> onDestroy i w)"

text \<open>The new component is rendered first; the variables of the receiver are read
  after that, as the source does.\<close>

definition c_replace :: "cid \<Rightarrow> cid \<Rightarrow> world \<Rightarrow> world" where
  "c_replace c newComponent w0 =
     (let w = emit (Called c (MReplace newComponent)) w0;
          (r, w1) = c_render newComponent w
      in case comps w1 c of
           Leaf el \<Rightarrow> (case el of None \<Rightarrow> w1 | Some e \<Rightarrow> dom_replaceWith e r w1)
         | Empty element \<Rightarrow> dom_replaceWith element r w1
         | Custom i \<Rightarrow>
             onDestroy i
               (case lastRenderResult i of None \<Rightarrow> w1 | Some n \<Rightarrow> dom_replaceWith n r w1))"

text \<open>\<^verbatim>\<open>append\<close> of a placeholder calls \<^verbatim>\<open>appendChild\<close> on its text node, which cannot
  have children: after the new component has been rendered the document raises
  \<^verbatim>\<open>HierarchyRequestError\<close>. This is the one document operation that fails; the result
  \<open>None\<close> of \<open>c_append\<close> and of its callers is that exception.\<close>

definition c_append :: "cid \<Rightarrow> cid \<Rightarrow> world \<Rightarrow> world option" where
  "c_append c newComponent w0 =
     (let w = emit (Called c (MAppend newComponent)) w0;
          (r, w1) = c_render newComponent w
      in case comps w1 c of
           Leaf el \<Rightarrow>
             (case el of
                None \<Rightarrow> Some w1
              | Some e \<Rightarrow>
                  (case parentElement w1 e of
                     None \<Rightarrow> Some w1
                   | Some p \<Rightarrow> Some (dom_appendChild p r w1)))
         | Empty element \<Rightarrow> None
         | Custom i \<Rightarrow>
             (case lastRenderResult i of
                None \<Rightarrow> Some w1
              | Some n \<Rightarrow>
                  (case parentElement w1 n of
                     None \<Rightarrow> Some w1
                   | Some p \<Rightarrow> Some (dom_appendChild p r w1))))"

text \<open>Only a \<^verbatim>\<open>$\<close> instance has \<^verbatim>\<open>reload\<close>; \<^verbatim>\<open>$for\<close> calls it only after
  \<^verbatim>\<open>isCustomComponent\<close>.\<close>

definition c_reload :: "cid \<Rightarrow> props \<Rightarrow> world \<Rightarrow> world" where
  "c_reload c newProps w0 =
     (let w = emit (Called c (MReload newProps)) w0 in
      case comps w c of
        Custom i \<Rightarrow> (let (i1, w1) = reload newProps i w in w1\<lparr>comps := (comps w1)(c := Custom i1)\<rparr>)
      | _ \<Rightarrow> w)"

subsection \<open>\<^verbatim>\<open>signalFactory\<close>: writing a signal\<close>

text \<open>The argument of \<^verbatim>\<open>write\<close> is a value or an updater; \<^verbatim>\<open>isFunction\<close> tells them
  apart (no \<open>jsval\<close> is a function).\<close>

datatype write_arg = Direct jsval | Updater "jsval \<Rightarrow> jsval"

text \<open>\<^verbatim>\<open>listeners.forEach((listener) => listener(value))\<close> on the signal in slot \<open>k\<close> of
  the owner. \<open>call l v\<close> is what running the listener \<open>l\<close> with argument \<open>v\<close> does to the
  world; it may change the set that is being walked, so the walk reads the live set at
  every index and is bounded by fuel (\<open>None\<close>: the fuel ran out). The list returned
  names the listeners that were called, in order.\<close>

fun forEach_listeners ::
  "(lid \<Rightarrow> jsval \<Rightarrow> world \<Rightarrow> world) \<Rightarrow> nat \<Rightarrow> nat \<Rightarrow> nat \<Rightarrow> world \<Rightarrow> (lid list \<times> world) option" where
  "forEach_listeners call k 0 index w = None"
| "forEach_listeners call k (Suc fuel) index w =
     (case signals (owner w) k of
        None \<Rightarrow> Some ([], w)
      | Some s \<Rightarrow>
          if length (listeners s) \<le> index then Some ([], w)
          else
            (case listeners s ! index of
               None \<Rightarrow> forEach_listeners call k fuel (Suc index) w
             | Some listener \<Rightarrow>
                 (case forEach_listeners call k fuel (Suc index) (call listener (sig_value s) w) of
                    None \<Rightarrow> None
                  | Some (called, w1) \<Rightarrow> Some (listener # called, w1))))"

definition sig_write ::
  "(lid \<Rightarrow> jsval \<Rightarrow> world \<Rightarrow> world) \<Rightarrow> nat \<Rightarrow> nat \<Rightarrow> write_arg \<Rightarrow> world \<Rightarrow> (lid list \<times> world) option" where
  "sig_write call fuel k newValue w =
     (case signals (owner w) k of
        None \<Rightarrow> Some ([], w)
      | Some s \<Rightarrow>
          (let v = (case newValue of Updater f \<Rightarrow> f (sig_value s) | Direct x \<Rightarrow> x);
               w1 = w\<lparr>owner := (owner w)\<lparr>signals := (signals (owner w))(k \<mapsto> s\<lparr>sig_value := v\<rparr>)\<rparr>\<rparr>
           in forEach_listeners call k fuel 0 w1))"



subsection \<open>The signal context around a tracked evaluation\<close>

definition set_currentListener :: "lid option \<Rightarrow> world \<Rightarrow> world" where
  "set_currentListener l w =
     w\<lparr>owner := (owner w)\<lparr>signalCtx := (signalCtx (owner w))\<lparr>currentListener := l\<rparr>\<rparr>\<rparr>"

text \<open>\<^verbatim>\<open>const unsubscribers = [...signalCtx.unsubscribers]; signalCtx.unsubscribers = [];
  signalCtx.currentListener = undefined;\<close>\<close>

definition take_unsubscribers :: "world \<Rightarrow> (nat \<times> lid) list \<times> world" where
  "take_unsubscribers w =
     (unsubscribers (signalCtx (owner w)),
      w\<lparr>owner := (owner w)\<lparr>signalCtx := \<lparr>currentListener = None, unsubscribers = []\<rparr>\<rparr>\<rparr>)"

text \<open>Running one recorded closure \<^verbatim>\<open>() => listeners.delete(listener)\<close>.\<close>

definition unsubscribe :: "nat \<times> lid \<Rightarrow> world \<Rightarrow> world" where
  "unsubscribe u w =
     (case signals (owner w) (fst u) of
        None \<Rightarrow> w
      | Some s \<Rightarrow>
          w\<lparr>owner := (owner w)\<lparr>signals :=
               (signals (owner w))(fst u \<mapsto> s\<lparr>listeners := set_delete (snd u) (listeners s)\<rparr>)\<rparr>\<rparr>)"

subsection \<open>\<^verbatim>\<open>$bind\<close>\<close>

record bind_state =
  b_component :: "cid option"
  b_initialRender :: "node option"
  b_unsubscribers :: "(nat \<times> lid) list"

definition bind_rerender ::
  "(world \<Rightarrow> cid \<times> world) \<Rightarrow> bind_state \<Rightarrow> world \<Rightarrow> cid \<times> bind_state \<times> world" where
  "bind_rerender renderFn b w =
     (case b_component b of
        Some c \<Rightarrow> (let (n, w1) = c_render c w in (c, b, w1))
      | None \<Rightarrow> (let (c, w1) = renderFn w in (c, b\<lparr>b_component := Some c\<rparr>, w1)))"

text \<open>The call \<^verbatim>\<open>$bind(renderFn)\<close>; \<open>self\<close> names the closure \<^verbatim>\<open>rerender\<close> it creates.\<close>

definition bind_new :: "lid \<Rightarrow> (world \<Rightarrow> cid \<times> world) \<Rightarrow> world \<Rightarrow> bind_state \<times> world" where
  "bind_new self renderFn w =
     (let w1 = set_currentListener (Some self) w;
          (c, w2) = renderFn w1;
          (n, w3) = c_render c w2;
          (us, w4) = take_unsubscribers w3
      in (\<lparr>b_component = Some c, b_initialRender = Some n, b_unsubscribers = us\<rparr>, w4))"

definition bind_render ::
  "(world \<Rightarrow> cid \<times> world) \<Rightarrow> bind_state \<Rightarrow> world \<Rightarrow> node \<times> bind_state \<times> world" where
  "bind_render renderFn b w =
     (case b_component b of
        Some c \<Rightarrow>
          (case b_initialRender b of
             Some initialRenderCopy \<Rightarrow> (initialRenderCopy, b\<lparr>b_initialRender := None\<rparr>, w)
           | None \<Rightarrow> (let (n, w1) = c_render c w in (n, b, w1)))
      | None \<Rightarrow>
          (let (c, b1, w1) = bind_rerender renderFn b w;
               (n, w2) = c_render c w1
           in (n, b1, w2)))"

definition bind_destroy :: "bind_state \<Rightarrow> world \<Rightarrow> world" where
  "bind_destroy b w =
     (let w1 = fold unsubscribe (b_unsubscribers b) w in
      case b_component b of None \<Rightarrow> w1 | Some c \<Rightarrow> c_destroy c w1)"

definition bind_replace :: "cid \<Rightarrow> bind_state \<Rightarrow> world \<Rightarrow> world" where
  "bind_replace newComponent b w =
     (case b_component b of None \<Rightarrow> w | Some c \<Rightarrow> c_replace c newComponent w)"

definition bind_append :: "cid \<Rightarrow> bind_state \<Rightarrow> world \<Rightarrow> world option" where
  "bind_append newComponent b w =
     (case b_component b of None \<Rightarrow> Some w | Some c \<Rightarrow> c_append c newComponent w)"

subsection \<open>\<^verbatim>\<open>$if\<close>\<close>

record if_state =
  i_component :: "cid option"
  i_unsubscribers :: "(nat \<times> lid) list"

definition if_rerender ::
  "(world \<Rightarrow> bool \<times> world) \<Rightarrow> cid \<Rightarrow> cid option \<Rightarrow> if_state \<Rightarrow> world \<Rightarrow> cid \<times> if_state \<times> world" where
  "if_rerender condition whenTrue whenFalse st w =
     (let (b, w1) = condition w;
          (renderResult, w2) =
             (if b then (whenTrue, w1)
              else (case whenFalse of Some f \<Rightarrow> (f, w1) | None \<Rightarrow> createEmptyComponent w1))
      in case i_component st of
           None \<Rightarrow> (renderResult, st, w2)
         | Some c \<Rightarrow>
             if c \<noteq> renderResult then
               (renderResult, st\<lparr>i_component := Some renderResult\<rparr>,
                c_destroy c (c_replace c renderResult w2))
             else (renderResult, st, w2))"

definition if_new ::
  "lid \<Rightarrow> (world \<Rightarrow> bool \<times> world) \<Rightarrow> cid \<Rightarrow> cid option \<Rightarrow> world \<Rightarrow> if_state \<times> world" where
  "if_new self condition whenTrue whenFalse w =
     (let w1 = set_currentListener (Some self) w;
          (c, st, w2) = if_rerender condition whenTrue whenFalse
                          \<lparr>i_component = None, i_unsubscribers = []\<rparr> w1;
          (us, w3) = take_unsubscribers w2
      in (\<lparr>i_component = Some c, i_unsubscribers = us\<rparr>, w3))"

definition if_render ::
  "(world \<Rightarrow> bool \<times> world) \<Rightarrow> cid \<Rightarrow> cid option \<Rightarrow> if_state \<Rightarrow> world \<Rightarrow> node \<times> if_state \<times> world" where
  "if_render condition whenTrue whenFalse st w =
     (case i_component st of
        Some c \<Rightarrow> (let (n, w1) = c_render c w in (n, st, w1))
      | None \<Rightarrow>
          (let (c, st1, w1) = if_rerender condition whenTrue whenFalse st w;
               (n, w2) = c_render c w1
           in (n, st1\<lparr>i_component := Some c\<rparr>, w2)))"

definition if_destroy :: "if_state \<Rightarrow> world \<Rightarrow> world" where
  "if_destroy st w =
     (let w1 = fold unsubscribe (i_unsubscribers st) w in
      case i_component st of None \<Rightarrow> w1 | Some c \<Rightarrow> c_destroy c w1)"

definition if_replace :: "cid \<Rightarrow> if_state \<Rightarrow> world \<Rightarrow> world" where
  "if_replace newComponent st w =
     (case i_component st of None \<Rightarrow> w | Some c \<Rightarrow> c_replace c newComponent w)"

definition if_append :: "cid \<Rightarrow> if_state \<Rightarrow> world \<Rightarrow> world option" where
  "if_append newComponent st w =
     (case i_component st of None \<Rightarrow> Some w | Some c \<Rightarrow> c_append c newComponent w)"

subsection \<open>\<^verbatim>\<open>$for\<close>\<close>

record for_state =
  f_components :: "cid list"
  f_unsubscribers :: "(nat \<times> lid) list"

text \<open>\<^verbatim>\<open>items().map((item) => renderItem(item))\<close>\<close>

fun map_js :: "('a \<Rightarrow> world \<Rightarrow> 'b \<times> world) \<Rightarrow> 'a list \<Rightarrow> world \<Rightarrow> 'b list \<times> world" where
  "map_js f [] w = ([], w)"
| "map_js f (x # xs) w =
     (let (y, w1) = f x w; (ys, w2) = map_js f xs w1 in (y # ys, w2))"

text \<open>The body of the reconciliation loop, run for the indices given (the source runs it
  for \<open>0, \<dots>, max(newComponentsLength, oldComponentsLength) - 1\<close>). \<open>None\<close> is an
  exception: the \<^verbatim>\<open>TypeError\<close> of calling a method of \<^verbatim>\<open>undefined\<close> (of
  \<^verbatim>\<open>newComponentsList[newComponentsList.length - 1]\<close> on an empty list, or of
  \<^verbatim>\<open>components[i]\<close> beyond the old list), or the exception of \<^verbatim>\<open>append\<close>.\<close>

fun for_loop ::
  "cid list \<Rightarrow> cid list \<Rightarrow> nat list \<Rightarrow> cid list \<Rightarrow> world \<Rightarrow> (cid list \<times> world) option" where
  "for_loop components newComponents [] newComponentsList w = Some (newComponentsList, w)"
| "for_loop components newComponents (i # is) newComponentsList w =
     (if i < length newComponents \<and> i < length components then
        (let prev = components ! i; next = newComponents ! i in
         if isCustomComponent (comps w prev) \<and> isCustomComponent (comps w next) \<and>
            serial_of (comps w prev) = serial_of (comps w next)
         then for_loop components newComponents is (newComponentsList @ [prev])
                (c_reload prev (props_of (comps w next)) w)
         else for_loop components newComponents is (newComponentsList @ [next])
                (c_replace prev next w))
      else if i < length newComponents then
        (if newComponentsList = [] then None
         else (case c_append (last newComponentsList) (newComponents ! i) w of
                 None \<Rightarrow> None
               | Some w1 \<Rightarrow>
                   for_loop components newComponents is (newComponentsList @ [newComponents ! i]) w1))
      else if i < length components then
        for_loop components newComponents is newComponentsList (c_destroy (components ! i) w)
      else None)"

definition for_rerender ::
  "(world \<Rightarrow> jsval list \<times> world) \<Rightarrow> (jsval \<Rightarrow> world \<Rightarrow> cid \<times> world) \<Rightarrow> for_state \<Rightarrow> world
     \<Rightarrow> (cid list \<times> for_state \<times> world) option" where
  "for_rerender items renderItem st w =
     (let (xs, w1) = items w;
          (newComponents, w2) = map_js renderItem xs w1;
          reconciled =
            (if 0 < length (f_components st) then
               for_loop (f_components st) newComponents
                 [0 ..< max (length newComponents) (length (f_components st))] [] w2
             else Some (newComponents, w2))
      in case reconciled of
           None \<Rightarrow> None
         | Some (cs, w3) \<Rightarrow>
             if length cs = 0 then
               (let (e, w4) = createEmptyComponent w3 in Some ([e], st\<lparr>f_components := [e]\<rparr>, w4))
             else Some (cs, st\<lparr>f_components := cs\<rparr>, w3))"

definition for_new ::
  "lid \<Rightarrow> (world \<Rightarrow> jsval list \<times> world) \<Rightarrow> (jsval \<Rightarrow> world \<Rightarrow> cid \<times> world) \<Rightarrow> world
     \<Rightarrow> (for_state \<times> world) option" where
  "for_new self items renderItem w =
     (let w1 = set_currentListener (Some self) w in
      case for_rerender items renderItem \<lparr>f_components = [], f_unsubscribers = []\<rparr> w1 of
        None \<Rightarrow> None
      | Some (cs, st, w2) \<Rightarrow>
          (let (cs1, w3) = (if length cs = 0
                            then (let (e, w') = createEmptyComponent w2 in ([e], w'))
                            else (cs, w2));
               (us, w4) = take_unsubscribers w3
           in Some (\<lparr>f_components = cs1, f_unsubscribers = us\<rparr>, w4)))"

text \<open>Rendering every child into the fragment.\<close>

fun render_into :: "node \<Rightarrow> cid list \<Rightarrow> world \<Rightarrow> world" where
  "render_into frag [] w = w"
| "render_into frag (c # cs) w =
     (let (n, w1) = c_render c w in render_into frag cs (dom_appendChild frag n w1))"

definition for_render :: "for_state \<Rightarrow> world \<Rightarrow> node \<times> for_state \<times> world" where
  "for_render st w =
     (let (frag, w1) = createDocumentFragment w;
          (st1, w2) = (if length (f_components st) = 0
                       then (let (e, w') = createEmptyComponent w1 in (st\<lparr>f_components := [e]\<rparr>, w'))
                       else (st, w1))
      in (frag, st1, render_into frag (f_components st1) w2))"

definition for_destroy :: "for_state \<Rightarrow> world \<Rightarrow> world" where
  "for_destroy st w =
     (let w1 = fold unsubscribe (f_unsubscribers st) w in
      if 0 < length (f_components st) then fold c_destroy (f_components st) w1 else w1)"

definition for_replace :: "cid \<Rightarrow> for_state \<Rightarrow> world \<Rightarrow> world" where
  "for_replace newComponent st w =
     (if 0 < length (f_components st) then
        fold c_destroy (f_components st) (c_replace (hd (f_components st)) newComponent w)
      else w)"

definition for_append :: "cid \<Rightarrow> for_state \<Rightarrow> world \<Rightarrow> world option" where
  "for_append newComponent st w =
     (if 0 < length (f_components st) then c_append (last (f_components st)) newComponent w
      else Some w)"

subsection \<open>Reading the trace and the heap\<close>

text \<open>The method calls recorded in a trace, in order.\<close>

fun calls :: "event list \<Rightarrow> (cid \<times> meth) list" where
  "calls [] = []"
| "calls (Called c m # es) = (c, m) # calls es"
| "calls (e # es) = calls es"

text \<open>The mount effects and the mount cleanups that ran, in order; the effects that
  the \<^verbatim>\<open>$mount\<close> calls of a render function name; and \<open>n\<close> renders of an instance in a
  row.\<close>

fun effects :: "event list \<Rightarrow> nat list" where
  "effects [] = []"
| "effects (RanEffect b # es) = b # effects es"
| "effects (e # es) = effects es"

fun cleanups :: "event list \<Rightarrow> nat list" where
  "cleanups [] = []"
| "cleanups (RanCleanup u # es) = u # cleanups es"
| "cleanups (e # es) = cleanups es"

fun mount_effects :: "hook list \<Rightarrow> nat list" where
  "mount_effects [] = []"
| "mount_effects (UseMount b u # hs) = b # mount_effects hs"
| "mount_effects (h # hs) = mount_effects hs"

fun render_times :: "nat \<Rightarrow> inst \<Rightarrow> 'a dom_scheme \<Rightarrow> inst \<times> 'a dom_scheme" where
  "render_times 0 i d = (i, d)"
| "render_times (Suc n) i d = (let (el, i1, d1) = render i d in render_times n i1 d1)"

text \<open>What \<^verbatim>\<open>$for\<close> looks at in a component (whether it is a \<^verbatim>\<open>$\<close> instance, its
  \<^verbatim>\<open>serial\<close> and its \<^verbatim>\<open>props\<close>), and the hook-slot signals of a component.\<close>

definition shape :: "comp \<Rightarrow> (nat \<times> props) option" where
  "shape v = (case v of Custom i \<Rightarrow> Some (serial i, props i) | _ \<Rightarrow> None)"

definition signals_of :: "comp \<Rightarrow> nat \<rightharpoonup> signal" where
  "signals_of v = (case v of Custom i \<Rightarrow> signals i | _ \<Rightarrow> Map.empty)"

definition isPlaceholder :: "comp \<Rightarrow> bool" where
  "isPlaceholder v = (case v of Empty element \<Rightarrow> True | _ \<Rightarrow> False)"

text \<open>Two relations used to state what an operation leaves alone. \<open>quiet d d'\<close>: only
  the document changed, and no method call was recorded. \<open>evolves w w'\<close>: no component
  was created, the owner is untouched, every component kept what \<^verbatim>\<open>$for\<close> looks at, a
  placeholder stayed a placeholder and nothing else became one, and every hook slot that
  held a signal holds the same signal.\<close>

definition quiet :: "'a dom_scheme \<Rightarrow> 'a dom_scheme \<Rightarrow> bool" where
  "quiet d d' =
     (\<exists>es f g n. calls es = [] \<and>
        d' = d\<lparr>parent := f, is_element := g, next_node := n, trace := trace d @ es\<rparr>)"

definition evolves :: "world \<Rightarrow> world \<Rightarrow> bool" where
  "evolves w w' =
     (next_cid w' = next_cid w \<and> owner w' = owner w \<and>
      (\<forall>x. shape (comps w' x) = shape (comps w x) \<and>
           isPlaceholder (comps w' x) = isPlaceholder (comps w x) \<and>
           signals_of (comps w x) \<subseteq>\<^sub>m signals_of (comps w' x)))"

subsection \<open>Example states\<close>

text \<open>An empty document and heap; the owner is an instance without props whose render
  function calls no tool.\<close>

definition init_world :: world where
  "init_world =
     \<lparr>parent = Map.empty, is_element = (\<lambda>_. False), next_node = 0, trace = [],
      comps = (\<lambda>_. Leaf None), next_cid = 0, owner = new_inst 0 (\<lambda>_. []) None\<rparr>"

text \<open>The same with one signal, of initial value \<open>v\<close>, in hook slot 0 of the owner.\<close>

definition world_with_signal :: "jsval \<Rightarrow> world" where
  "world_with_signal v = init_world\<lparr>owner := snd (tool_signal v (owner init_world))\<rparr>"

text \<open>The callback \<^verbatim>\<open>() => div({})(greeting())\<close>: it reads the signal of slot 0 and
  builds a new intrinsic element.\<close>

definition greeting_leaf :: "world \<Rightarrow> cid \<times> world" where
  "greeting_leaf w = (let (v, i) = sig_read 0 (owner w) in new_comp (Leaf None) (w\<lparr>owner := i\<rparr>))"

text \<open>The predicate \<^verbatim>\<open>() => flag()\<close> on the signal of slot \<open>k\<close>.\<close>

definition signal_is_true :: "nat \<Rightarrow> world \<Rightarrow> bool \<times> world" where
  "signal_is_true k w = (let (v, i) = sig_read k (owner w) in (v = Bool True, w\<lparr>owner := i\<rparr>))"

text \<open>A binding \<^verbatim>\<open>$bind(() => div({})(greeting()))\<close>, created and rendered once; its
  closure \<^verbatim>\<open>rerender\<close> is listener 7.\<close>

definition bind_ex :: "bind_state \<times> world" where
  "bind_ex =
     (let (b, w) = bind_new 7 greeting_leaf (world_with_signal (Str ''hello''));
          (n, b1, w1) = bind_render greeting_leaf b w
      in (b1, w1))"

definition bind_ex_listener :: "lid \<Rightarrow> jsval \<Rightarrow> world \<Rightarrow> world" where
  "bind_ex_listener l v w = snd (snd (bind_rerender greeting_leaf (fst bind_ex) w))"

text \<open>A conditional \<^verbatim>\<open>$if(flag)(div()())\<close> without a false branch, over a flag that is
  false; component 0 is the true branch and listener 5 the closure \<^verbatim>\<open>rerender\<close>.\<close>

definition if_ex :: "if_state \<times> world" where
  "if_ex =
     (let (c, w) = new_comp (Leaf None) (world_with_signal (Bool False));
          (st, w1) = if_new 5 (signal_is_true 0) c None w;
          (n, st1, w2) = if_render (signal_is_true 0) c None st w1
      in (st1, w2))"

definition if_ex_listener :: "if_state \<Rightarrow> lid \<Rightarrow> jsval \<Rightarrow> world \<Rightarrow> world" where
  "if_ex_listener st l v w = snd (snd (if_rerender (signal_is_true 0) 0 None st w))"

text \<open>A component \<^verbatim>\<open>$((_, { $mount }) => { $mount(effect); ... })\<close> whose mount effect 10
  returns the cleanup 20.\<close>

definition mounted :: inst where
  "mounted = new_inst 1 (\<lambda>_. [UseMount 10 (Some 20)]) None"

text \<open>A conditional \<^verbatim>\<open>$if(flag)(Mounted(), div()())\<close> over a flag that is true, created
  and rendered; component 0 is the instance, component 1 the element.\<close>

definition mount_ex :: "if_state \<times> world" where
  "mount_ex =
     (let (c, w) = new_comp (Custom mounted) (world_with_signal (Bool True));
          (f, w1) = new_comp (Leaf None) w;
          (st, w2) = if_new 5 (signal_is_true 0) c (Some f) w1;
          (n, st1, w3) = if_render (signal_is_true 0) c (Some f) st w2
      in (st1, w3))"

definition mount_ex_listener :: "lid \<Rightarrow> jsval \<Rightarrow> world \<Rightarrow> world" where
  "mount_ex_listener l v w =
     snd (snd (if_rerender (signal_is_true 0) 0 (Some 1) (fst mount_ex) w))"

text \<open>The getter of a list signal kept in slot 0 is outside \<open>jsval\<close>; a list renderer is
  given its items by a function of the world. \<open>items_of xs\<close> is a getter returning \<open>xs\<close>.\<close>

definition items_of :: "jsval list \<Rightarrow> world \<Rightarrow> jsval list \<times> world" where
  "items_of xs w = (xs, w)"

text \<open>Item builders: \<^verbatim>\<open>(item) => li()(item)\<close>, \<^verbatim>\<open>(item) => Counter({ title: item })\<close> for
  a definition with one signal, and \<^verbatim>\<open>(item) => Plain()\<close> for a definition without
  props.\<close>

definition li_item :: "jsval \<Rightarrow> world \<Rightarrow> cid \<times> world" where
  "li_item item w = new_comp (Leaf None) w"

definition counter_item :: "jsval \<Rightarrow> world \<Rightarrow> cid \<times> world" where
  "counter_item item w =
     new_comp (Custom (new_inst 3 (\<lambda>_. [UseSignal (Num 0)]) (Some [(''title'', item)]))) w"

definition plain_item :: "jsval \<Rightarrow> world \<Rightarrow> cid \<times> world" where
  "plain_item item w = new_comp (Custom (new_inst 4 (\<lambda>_. [UseSignal (Num 0)]) None)) w"

text \<open>A list renderer created over the items \<open>xs\<close> with the builder \<open>f\<close> and rendered
  (\<^verbatim>\<open>$for\<close> on an empty previous list never raises; the first case is not taken).\<close>

definition for_ex :: "(jsval \<Rightarrow> world \<Rightarrow> cid \<times> world) \<Rightarrow> jsval list \<Rightarrow> for_state \<times> world" where
  "for_ex f xs =
     (case for_new 9 (items_of xs) f init_world of
        None \<Rightarrow> (\<lparr>f_components = [], f_unsubscribers = []\<rparr>, init_world)
      | Some (st, w) \<Rightarrow> (let (n, st1, w1) = for_render st w in (st1, w1)))"

text \<open>Three counters of one definition that have been rendered (to the nodes 0, 1
  and 2) and whose signals have reached 1, 2 and 3, as the children of a list
  renderer.\<close>

definition counter_with :: "int \<Rightarrow> jsval \<Rightarrow> node \<Rightarrow> inst" where
  "counter_with n title el =
     (new_inst 3 (\<lambda>_. [UseSignal (Num 0)]) (Some [(''title'', title)]))
       \<lparr>hasRendered := True, signalIndex := 1,
        signals := [0 \<mapsto> \<lparr>sig_value = Num n, listeners = []\<rparr>],
        lastRenderResult := Some el\<rparr>"

definition counters_ex :: "for_state \<times> world" where
  "counters_ex =
     (\<lparr>f_components = [0, 1, 2], f_unsubscribers = []\<rparr>,
      init_world\<lparr>next_node := 3,
                 comps := (comps init_world)
                   (0 := Custom (counter_with 1 (Str ''a'') 0),
                    1 := Custom (counter_with 2 (Str ''b'') 1),
                    2 := Custom (counter_with 3 (Str ''c'') 2)),
                 next_cid := 3\<rparr>)"

text \<open>Notifications of the example renderers: the listener \<^verbatim>\<open>rerender\<close> is run.\<close>

definition if_ex_1 :: "cid \<times> if_state \<times> world" where
  "if_ex_1 = if_rerender (signal_is_true 0) 0 None (fst if_ex) (snd if_ex)"

definition if_ex_2 :: "cid \<times> if_state \<times> world" where
  "if_ex_2 = if_rerender (signal_is_true 0) 0 None (fst (snd if_ex_1)) (snd (snd if_ex_1))"

definition grow_li :: "(cid list \<times> for_state \<times> world) option" where
  "grow_li =
     for_rerender (items_of [Str ''a'', Str ''b'']) li_item
       (fst (for_ex li_item [Str ''a''])) (snd (for_ex li_item [Str ''a'']))"

definition again_plain :: "(cid list \<times> for_state \<times> world) option" where
  "again_plain =
     for_rerender (items_of [Str ''a'']) plain_item
       (fst (for_ex plain_item [Str ''a''])) (snd (for_ex plain_item [Str ''a'']))"

text \<open>Instances that have been rendered once: a counter with props, an instance of a
  definition without props, and an instance whose only prop is present but
  \<^verbatim>\<open>undefined\<close>.\<close>

definition rendered :: "inst \<Rightarrow> inst \<times> world" where
  "rendered i = (let (n, i1, w) = render i init_world in (i1, w))"

definition counter_inst :: inst where
  "counter_inst = new_inst 3 (\<lambda>_. [UseSignal (Num 0)]) (Some [(''title'', Str ''a'')])"

definition plain_inst :: inst where
  "plain_inst = new_inst 4 (\<lambda>_. [UseSignal (Num 0)]) None"

definition optional_inst :: inst where
  "optional_inst = new_inst 6 (\<lambda>_. []) (Some [(''x'', Undefined)])"






text \<open>Two intrinsic elements that have been rendered (to the nodes 0 and 1), in the heap
  of a list renderer.\<close>

definition elements_ex :: world where
  "elements_ex =
     init_world\<lparr>next_node := 2,
                comps := (comps init_world)(0 := Leaf (Some 0), 1 := Leaf (Some 1)),
                next_cid := 2\<rparr>"

section \<open>Properties\<close>

subsection \<open>The tools and the render function of an instance\<close>

lemma calls_append: "calls (xs @ ys) = calls xs @ calls ys"
  by (induction xs rule: calls.induct) auto

lemma tool_signal_fields:
  "serial (snd (tool_signal v i)) = serial i"
  "props (snd (tool_signal v i)) = props i"
  "renderer (snd (tool_signal v i)) = renderer i"
  "hasRendered (snd (tool_signal v i)) = hasRendered i"
  "unmounts (snd (tool_signal v i)) = unmounts i"
  "curr (snd (tool_signal v i)) = curr i"
  "prev (snd (tool_signal v i)) = prev i"
  "lastRenderResult (snd (tool_signal v i)) = lastRenderResult i"
  by (auto simp: tool_signal_def split: option.splits)

lemma tool_signal_keeps: "signals i k = Some s \<Longrightarrow> signals (snd (tool_signal v i)) k = Some s"
  by (auto simp: tool_signal_def split: option.splits)

lemma run_hook_dom:
  "\<exists>es. calls es = [] \<and> snd (run_hook h (i, d)) = d\<lparr>trace := trace d @ es\<rparr>"
proof (cases h)
  case (UseSignal v)
  then show ?thesis by (intro exI [of _ "[]"]) simp
next
  case (UseMount b u)
  show ?thesis
  proof (cases "hasRendered i")
    case True
    with UseMount show ?thesis by (intro exI [of _ "[]"]) (simp add: tool_mount_def)
  next
    case False
    with UseMount show ?thesis
      by (intro exI [of _ "[RanEffect b]"]) (simp add: tool_mount_def emit_def split: option.splits)
  qed
qed

lemma run_hook_inst:
  "serial (fst (run_hook h (i, d))) = serial i \<and> props (fst (run_hook h (i, d))) = props i \<and>
   hasRendered (fst (run_hook h (i, d))) = hasRendered i"
  by (cases h) (auto simp: tool_signal_fields tool_mount_def split: option.splits)

lemma run_hook_keeps:
  "signals i k = Some s \<Longrightarrow> signals (fst (run_hook h (i, d))) k = Some s"
  by (cases h) (auto simp: tool_signal_keeps tool_mount_def split: option.splits)

lemma fold_run_hook_dom:
  "\<exists>es. calls es = [] \<and> snd (fold run_hook hs (i, d)) = d\<lparr>trace := trace d @ es\<rparr>"
proof (induction hs arbitrary: i d)
  case Nil
  show ?case by (intro exI [of _ "[]"]) simp
next
  case (Cons h hs)
  obtain i1 d1 where step: "run_hook h (i, d) = (i1, d1)" by (cases "run_hook h (i, d)")
  obtain es1 where es1: "calls es1 = []" "d1 = d\<lparr>trace := trace d @ es1\<rparr>"
    using run_hook_dom [of h i d] step by auto
  obtain es2 where es2: "calls es2 = []" "snd (fold run_hook hs (i1, d1)) = d1\<lparr>trace := trace d1 @ es2\<rparr>"
    using Cons.IH [of i1 d1] by auto
  show ?case
    using step es1 es2 by (intro exI [of _ "es1 @ es2"]) (simp add: calls_append)
qed

lemma fold_run_hook_inst:
  "serial (fst (fold run_hook hs (i, d))) = serial i \<and>
   props (fst (fold run_hook hs (i, d))) = props i"
proof (induction hs arbitrary: i d)
  case Nil
  show ?case by simp
next
  case (Cons h hs)
  obtain i1 d1 where step: "run_hook h (i, d) = (i1, d1)" by (cases "run_hook h (i, d)")
  then show ?case using Cons.IH [of i1 d1] run_hook_inst [of h i d] by simp
qed

lemma fold_run_hook_keeps:
  "signals i k = Some s \<Longrightarrow> signals (fst (fold run_hook hs (i, d))) k = Some s"
proof (induction hs arbitrary: i d)
  case Nil
  then show ?case by simp
next
  case (Cons h hs)
  obtain i1 d1 where step: "run_hook h (i, d) = (i1, d1)" by (cases "run_hook h (i, d)")
  then show ?case using Cons.IH [of i1 d1] run_hook_keeps [of i k s h d] Cons.prems by simp
qed

text \<open>\<open>render\<close>, characterised by projections.\<close>

lemma render_fst: "fst (render i d) = next_node d"
  using fold_run_hook_dom [of "renderer i (curr i)" "i\<lparr>signalIndex := 0\<rparr>" "emit (RanRenderer (curr i)) d"]
  by (auto simp: render_def createElement_def emit_def Let_def split: prod.splits)

lemma render_dom:
  "\<exists>es. calls es = [] \<and> snd (snd (render i d)) =
     d\<lparr>trace := trace d @ RanRenderer (curr i) # es,
       is_element := (is_element d)(next_node d := True), next_node := Suc (next_node d)\<rparr>"
proof -
  obtain es where es: "calls es = []"
    "snd (fold run_hook (renderer i (curr i)) (i\<lparr>signalIndex := 0\<rparr>, emit (RanRenderer (curr i)) d))
       = (emit (RanRenderer (curr i)) d)\<lparr>trace := trace (emit (RanRenderer (curr i)) d) @ es\<rparr>"
    using fold_run_hook_dom by blast
  show ?thesis
    using es by (intro exI [of _ es]) (auto simp: render_def createElement_def emit_def Let_def split: prod.splits)
qed

lemma render_inst:
  "serial (fst (snd (render i d))) = serial i \<and> props (fst (snd (render i d))) = props i \<and>
   lastRenderResult (fst (snd (render i d))) = Some (next_node d)"
  using fold_run_hook_inst [of "renderer i (curr i)" "i\<lparr>signalIndex := 0\<rparr>" "emit (RanRenderer (curr i)) d"]
    fold_run_hook_dom [of "renderer i (curr i)" "i\<lparr>signalIndex := 0\<rparr>" "emit (RanRenderer (curr i)) d"]
  by (auto simp: render_def createElement_def emit_def Let_def split: prod.splits)

lemma render_keeps:
  "signals i k = Some s \<Longrightarrow> signals (fst (snd (render i d))) k = Some s"
  using fold_run_hook_keeps [of "i\<lparr>signalIndex := 0\<rparr>" k s "renderer i (curr i)" "emit (RanRenderer (curr i)) d"]
  by (auto simp: render_def createElement_def Let_def split: prod.splits)


subsection \<open>Operations that only touch the document\<close>

lemma quietI:
  "calls es = [] \<Longrightarrow>
   d' = d\<lparr>parent := f, is_element := g, next_node := n, trace := trace d @ es\<rparr> \<Longrightarrow> quiet d d'"
  unfolding quiet_def by blast

lemma quiet_refl: "quiet d d"
  by (rule quietI [where es = "[]" and f = "parent d" and g = "is_element d" and n = "next_node d"])
     simp_all

lemma quiet_trans: "quiet d d1 \<Longrightarrow> quiet d1 d2 \<Longrightarrow> quiet d d2"
proof -
  assume "quiet d d1" "quiet d1 d2"
  then obtain es f g n es' f' g' n' where
    a: "calls es = []" "d1 = d\<lparr>parent := f, is_element := g, next_node := n, trace := trace d @ es\<rparr>" and
    b: "calls es' = []" "d2 = d1\<lparr>parent := f', is_element := g', next_node := n', trace := trace d1 @ es'\<rparr>"
    unfolding quiet_def by blast
  show ?thesis
    using a b
    by (intro quietI [where es = "es @ es'" and f = f' and g = g' and n = n']) (simp_all add: calls_append)
qed

lemma quiet_calls: "quiet d d' \<Longrightarrow> calls (trace d') = calls (trace d)"
  unfolding quiet_def by (auto simp: calls_append)

lemma quiet_world:
  "quiet (w :: world) w' \<Longrightarrow> comps w' = comps w \<and> next_cid w' = next_cid w \<and> owner w' = owner w"
  unfolding quiet_def by auto

lemma quiet_emit: "calls [e] = [] \<Longrightarrow> quiet d (emit e d)"
  by (rule quietI [where es = "[e]" and f = "parent d" and g = "is_element d" and n = "next_node d"])
     (simp_all add: emit_def)

lemma quiet_createElement: "quiet d (snd (createElement d))"
  by (rule quietI [where es = "[]" and f = "parent d" and g = "(is_element d)(next_node d := True)"
        and n = "Suc (next_node d)"]) (simp_all add: createElement_def)

lemma quiet_createTextNode: "quiet d (snd (createTextNode d))"
  by (rule quietI [where es = "[]" and f = "parent d" and g = "(is_element d)(next_node d := False)"
        and n = "Suc (next_node d)"]) (simp_all add: createTextNode_def)

lemma quiet_replaceWith: "quiet d (dom_replaceWith a b d)"
  by (rule quietI [where es = "[DomReplaceWith a b]" and f = "parent (dom_replaceWith a b d)"
        and g = "is_element d" and n = "next_node d"])
     (simp_all add: dom_replaceWith_def emit_def Let_def split: option.splits)

lemma quiet_remove: "quiet d (dom_remove a d)"
  by (rule quietI [where es = "[DomRemove a]" and f = "parent (dom_remove a d)"
        and g = "is_element d" and n = "next_node d"])
     (simp_all add: dom_remove_def emit_def Let_def)

lemma quiet_appendChild: "quiet d (dom_appendChild a b d)"
  by (rule quietI [where es = "[DomAppendChild a b]" and f = "parent (dom_appendChild a b d)"
        and g = "is_element d" and n = "next_node d"])
     (simp_all add: dom_appendChild_def emit_def Let_def)

lemma quiet_render: "quiet d (snd (snd (render i d)))"
proof -
  obtain es where es: "calls es = []" "snd (snd (render i d)) =
     d\<lparr>trace := trace d @ RanRenderer (curr i) # es,
       is_element := (is_element d)(next_node d := True), next_node := Suc (next_node d)\<rparr>"
    using render_dom by blast
  show ?thesis
    using es
    by (intro quietI [where es = "RanRenderer (curr i) # es" and f = "parent d"
          and g = "(is_element d)(next_node d := True)" and n = "Suc (next_node d)"]) simp_all
qed

lemma quiet_fold_emit:
  "quiet d (fold (\<lambda>u. emit (RanCleanup u)) us d)"
proof (induction us arbitrary: d)
  case Nil
  show ?case by (simp add: quiet_refl)
next
  case (Cons u us)
  have "quiet d (emit (RanCleanup u) d)" by (simp add: quiet_emit)
  then show ?case using Cons.IH [of "emit (RanCleanup u) d"] by (auto intro: quiet_trans)
qed

lemma quiet_onDestroy: "quiet d (onDestroy i d)"
  unfolding onDestroy_def Let_def
  by (cases "lastRenderResult i") (auto intro: quiet_trans quiet_remove quiet_fold_emit)

lemma quiet_reload: "quiet d (snd (reload p i d))"
  unfolding reload_def Let_def
  by (auto split: option.splits prod.splits intro: quiet_refl)
     (metis quiet_render quiet_replaceWith quiet_trans snd_conv)

lemma reload_inst:
  "serial (fst (reload p i d)) = serial i \<and> props (fst (reload p i d)) = props i"
  using render_inst [of "updateProps p (i\<lparr>signalIndex := 0\<rparr>)" d]
  by (auto simp: reload_def updateProps_def Let_def split: option.splits prod.splits)

lemma reload_keeps:
  "signals i k = Some s \<Longrightarrow> signals (fst (reload p i d)) k = Some s"
  using render_keeps [of "updateProps p (i\<lparr>signalIndex := 0\<rparr>)" k s d]
  by (auto simp: reload_def updateProps_def Let_def split: option.splits prod.splits)


subsection \<open>What the methods of a component record and leave alone\<close>

lemma evolves_refl: "evolves w w"
  by (simp add: evolves_def)

lemma evolves_trans: "evolves w w1 \<Longrightarrow> evolves w1 w2 \<Longrightarrow> evolves w w2"
  unfolding evolves_def by (auto intro: map_le_trans)

lemma quiet_evolves: "quiet w w' \<Longrightarrow> evolves w w'"
  using quiet_world [of w w'] by (simp add: evolves_def)

lemma evolves_emit: "evolves w (emit e w)"
  by (simp add: evolves_def emit_def)

lemma calls_emit: "calls (trace (emit e d)) = calls (trace d) @ calls [e]"
  by (simp add: emit_def calls_append)

lemma evolves_update:
  assumes "quiet w w2" and "shape v = shape (comps w c)"
    and "isPlaceholder v = isPlaceholder (comps w c)"
    and "signals_of (comps w c) \<subseteq>\<^sub>m signals_of v"
  shows "evolves w (w2\<lparr>comps := (comps w2)(c := v)\<rparr>)"
  using assms quiet_world [of w w2] by (simp add: evolves_def)

lemma calls_update:
  "quiet w w2 \<Longrightarrow> calls (trace (w2\<lparr>comps := X\<rparr>)) = calls (trace w)"
  by (simp add: quiet_calls)

lemma render_custom_ok:
  "shape (Custom (fst (snd (render i d)))) = shape (Custom i) \<and>
   signals_of (Custom i) \<subseteq>\<^sub>m signals_of (Custom (fst (snd (render i d))))"
  using render_inst [of i d] render_keeps [of i _ _ d]
  by (auto simp: shape_def signals_of_def map_le_def)

lemma reload_custom_ok:
  "shape (Custom (fst (reload p i d))) = shape (Custom i) \<and>
   signals_of (Custom i) \<subseteq>\<^sub>m signals_of (Custom (fst (reload p i d)))"
  using reload_inst [of p i d] reload_keeps [of i _ _ p d]
  by (auto simp: shape_def signals_of_def map_le_def)

lemma c_render_step:
  "evolves w (snd (c_render c w)) \<and>
   calls (trace (snd (c_render c w))) = calls (trace w) @ [(c, MRender)]"
proof -
  let ?w = "emit (Called c MRender) w"
  have w: "comps ?w = comps w" "evolves w ?w" "calls (trace ?w) = calls (trace w) @ [(c, MRender)]"
    by (simp_all add: evolves_emit calls_emit) (simp add: emit_def)
  show ?thesis
  proof (cases "comps w c")
    case (Leaf el)
    let ?n = "fst (createElement ?w)" and ?w1 = "snd (createElement ?w)"
    let ?w2 = "case el of None \<Rightarrow> ?w1 | Some e \<Rightarrow> dom_replaceWith e ?n ?w1"
    have q: "quiet ?w ?w2"
      by (cases el) (auto intro: quiet_createElement quiet_trans quiet_replaceWith)
    have r: "snd (c_render c w) = ?w2\<lparr>comps := (comps ?w2)(c := Leaf (Some ?n))\<rparr>"
      using Leaf w(1) by (simp add: c_render_def Let_def case_prod_beta)
    have "evolves ?w (snd (c_render c w))"
      unfolding r using q Leaf w(1)
      by (intro evolves_update) (simp_all add: shape_def signals_of_def isPlaceholder_def)
    moreover have "calls (trace (snd (c_render c w))) = calls (trace ?w)"
      unfolding r using q by (rule calls_update)
    ultimately show ?thesis using w by (auto intro: evolves_trans)
  next
    case (Empty e)
    then have "snd (c_render c w) = ?w" using w(1) by (simp add: c_render_def Let_def)
    then show ?thesis using w by simp
  next
    case (Custom i)
    let ?i1 = "fst (snd (render i ?w))" and ?w1 = "snd (snd (render i ?w))"
    have q: "quiet ?w ?w1" by (rule quiet_render)
    have r: "snd (c_render c w) = ?w1\<lparr>comps := (comps ?w1)(c := Custom ?i1)\<rparr>"
      using Custom w(1) by (simp add: c_render_def Let_def case_prod_beta)
    have "evolves ?w (snd (c_render c w))"
      unfolding r using q Custom w(1) render_custom_ok [of i ?w]
      by (intro evolves_update) (simp_all add: isPlaceholder_def)
    moreover have "calls (trace (snd (c_render c w))) = calls (trace ?w)"
      unfolding r using q by (rule calls_update)
    ultimately show ?thesis using w by (auto intro: evolves_trans)
  qed
qed

lemma c_reload_step:
  "evolves w (c_reload c p w) \<and>
   calls (trace (c_reload c p w)) = calls (trace w) @ [(c, MReload p)]"
proof -
  let ?w = "emit (Called c (MReload p)) w"
  have w: "comps ?w = comps w" "evolves w ?w" "calls (trace ?w) = calls (trace w) @ [(c, MReload p)]"
    by (simp_all add: evolves_emit calls_emit) (simp add: emit_def)
  show ?thesis
  proof (cases "comps w c")
    case (Custom i)
    let ?i1 = "fst (reload p i ?w)" and ?w1 = "snd (reload p i ?w)"
    have q: "quiet ?w ?w1" by (rule quiet_reload)
    have r: "c_reload c p w = ?w1\<lparr>comps := (comps ?w1)(c := Custom ?i1)\<rparr>"
      using Custom w(1) by (simp add: c_reload_def Let_def case_prod_beta)
    have "evolves ?w (c_reload c p w)"
      unfolding r using q Custom w(1) reload_custom_ok [of p i ?w]
      by (intro evolves_update) (simp_all add: isPlaceholder_def)
    moreover have "calls (trace (c_reload c p w)) = calls (trace ?w)"
      unfolding r using q by (rule calls_update)
    ultimately show ?thesis using w by (auto intro: evolves_trans)
  next
    case (Leaf el)
    then have "c_reload c p w = ?w" using w(1) by (simp add: c_reload_def Let_def)
    then show ?thesis using w by simp
  next
    case (Empty e)
    then have "c_reload c p w = ?w" using w(1) by (simp add: c_reload_def Let_def)
    then show ?thesis using w by simp
  qed
qed

lemma c_destroy_step:
  "evolves w (c_destroy c w) \<and>
   calls (trace (c_destroy c w)) = calls (trace w) @ [(c, MDestroy)]"
proof -
  let ?w = "emit (Called c MDestroy) w"
  have w: "evolves w ?w" "calls (trace ?w) = calls (trace w) @ [(c, MDestroy)]"
    by (simp_all add: evolves_emit calls_emit)
  have "quiet ?w (c_destroy c w)"
    unfolding c_destroy_def Let_def
    by (auto split: comp.splits option.splits intro: quiet_refl quiet_remove quiet_onDestroy)
  then show ?thesis
    using w quiet_evolves quiet_calls by (metis evolves_trans)
qed

lemma c_replace_step:
  "evolves w (c_replace c n w) \<and>
   calls (trace (c_replace c n w)) = calls (trace w) @ [(c, MReplace n), (n, MRender)]"
proof -
  let ?w = "emit (Called c (MReplace n)) w"
  let ?w1 = "snd (c_render n ?w)"
  have w: "evolves w ?w1" "calls (trace ?w1) = calls (trace w) @ [(c, MReplace n), (n, MRender)]"
    using c_render_step [of ?w n] evolves_emit [of w] by (auto simp: calls_emit intro: evolves_trans)
  have "quiet ?w1 (c_replace c n w)"
    unfolding c_replace_def Let_def
    by (auto split: comp.splits option.splits prod.splits
          intro: quiet_refl quiet_replaceWith quiet_onDestroy quiet_trans)
  then show ?thesis
    using w quiet_evolves quiet_calls by (metis evolves_trans)
qed

lemma c_append_step:
  assumes "\<not> isPlaceholder (comps w c)"
  shows "\<exists>w'. c_append c n w = Some w' \<and> evolves w w' \<and>
              calls (trace w') = calls (trace w) @ [(c, MAppend n), (n, MRender)]"
proof -
  let ?w = "emit (Called c (MAppend n)) w"
  let ?w1 = "snd (c_render n ?w)"
  have w: "evolves w ?w1" "calls (trace ?w1) = calls (trace w) @ [(c, MAppend n), (n, MRender)]"
    using c_render_step [of ?w n] evolves_emit [of w] by (auto simp: calls_emit intro: evolves_trans)
  have "\<not> isPlaceholder (comps ?w1 c)"
    using w(1) assms by (simp add: evolves_def)
  then have "\<exists>w'. c_append c n w = Some w' \<and> quiet ?w1 w'"
    unfolding c_append_def Let_def
    by (auto simp: isPlaceholder_def split: comp.splits option.splits prod.splits
          intro: quiet_refl quiet_appendChild)
  then obtain w' where w': "c_append c n w = Some w'" "quiet ?w1 w'" by blast
  have "evolves w w'" using w(1) w'(2) quiet_evolves evolves_trans by blast
  moreover have "calls (trace w') = calls (trace w) @ [(c, MAppend n), (n, MRender)]"
    using w(2) w'(2) quiet_calls by metis
  ultimately show ?thesis using w'(1) by blast
qed

lemma c_append_placeholder:
  "isPlaceholder (comps w c) \<Longrightarrow> c_append c n w = None"
proof -
  assume p: "isPlaceholder (comps w c)"
  let ?w = "emit (Called c (MAppend n)) w"
  have "evolves w (snd (c_render n ?w))"
    using c_render_step [of ?w n] evolves_emit [of w] by (auto intro: evolves_trans)
  then have "isPlaceholder (comps (snd (c_render n ?w)) c)"
    using p by (simp add: evolves_def)
  then show ?thesis
    unfolding c_append_def Let_def
    by (auto simp: isPlaceholder_def split: comp.splits prod.splits)
qed

subsection \<open>Claims\<close>

text \<open>
  \<^bold>\<open>C8.\<close> Calling \<^verbatim>\<open>replace\<close> or \<^verbatim>\<open>append\<close> of a structural primitive (\<^verbatim>\<open>$bind\<close>,
  \<^verbatim>\<open>$if\<close>, \<^verbatim>\<open>$for\<close>) that has no current child is a no-op: no error is raised (\<^verbatim>\<open>replace\<close>
  has no failing branch, and \<^verbatim>\<open>append\<close> returns \<open>Some\<close>) and the world returned is the
  world given, document and trace included; the state of the primitive is not written
  by these methods at all.
\<close>

theorem structural_no_child_noop:
  "(b_component b = None \<longrightarrow> bind_replace n b w = w \<and> bind_append n b w = Some w) \<and>
   (i_component st = None \<longrightarrow> if_replace n st w = w \<and> if_append n st w = Some w) \<and>
   (f_components fs = [] \<longrightarrow> for_replace n fs w = w \<and> for_append n fs w = Some w)"
  by (simp add: bind_replace_def bind_append_def if_replace_def if_append_def
        for_replace_def for_append_def)

theorem structural_no_child_noop_witness:
  "bind_replace 1 \<lparr>b_component = None, b_initialRender = None, b_unsubscribers = []\<rparr> init_world = init_world \<and>
   bind_append 1 \<lparr>b_component = None, b_initialRender = None, b_unsubscribers = []\<rparr> init_world = Some init_world \<and>
   if_replace 1 \<lparr>i_component = None, i_unsubscribers = []\<rparr> init_world = init_world \<and>
   if_append 1 \<lparr>i_component = None, i_unsubscribers = []\<rparr> init_world = Some init_world \<and>
   for_replace 1 \<lparr>f_components = [], f_unsubscribers = []\<rparr> init_world = init_world \<and>
   for_append 1 \<lparr>f_components = [], f_unsubscribers = []\<rparr> init_world = Some init_world"
  using structural_no_child_noop [of "\<lparr>b_component = None, b_initialRender = None, b_unsubscribers = []\<rparr>"
      1 init_world "\<lparr>i_component = None, i_unsubscribers = []\<rparr>"
      "\<lparr>f_components = [], f_unsubscribers = []\<rparr>"]
  by simp

text \<open>
  \<^bold>\<open>C10.\<close> Once hook slot \<open>k\<close> of an instance holds a signal \<open>s\<close>: a call
  \<^verbatim>\<open>$signal(initialValue)\<close> made when the slot counter stands at \<open>k\<close> returns that slot's
  signal and only advances the counter, whatever \<open>initialValue\<close> is; and slot \<open>k\<close> still
  holds \<open>s\<close> (value and subscribers) after any \<^verbatim>\<open>$signal\<close> call, any \<^verbatim>\<open>render\<close> and any
  \<^verbatim>\<open>reload\<close> of the instance.
\<close>

theorem signal_slot_reuse:
  assumes "signals i k = Some s"
  shows "(signalIndex i = k \<longrightarrow>
            tool_signal initialValue i = (k, i\<lparr>signalIndex := k + 1\<rparr>)) \<and>
         signals (snd (tool_signal initialValue i)) k = Some s \<and>
         signals (fst (snd (render i d))) k = Some s \<and>
         signals (fst (reload newProps i d)) k = Some s"
proof -
  have "signalIndex i = k \<longrightarrow> tool_signal initialValue i = (k, i\<lparr>signalIndex := k + 1\<rparr>)"
    using assms by (auto simp: tool_signal_def)
  then show ?thesis
    using assms by (simp add: tool_signal_keeps render_keeps reload_keeps)
qed

theorem signal_slot_reuse_witness:
  "signals ((fst (rendered counter_inst))\<lparr>signalIndex := 0\<rparr>) 0 = Some (createSignal (Num 0)) \<and>
   tool_signal (Num 5) ((fst (rendered counter_inst))\<lparr>signalIndex := 0\<rparr>) =
     (0, (fst (rendered counter_inst))\<lparr>signalIndex := 0 + 1\<rparr>) \<and>
   signals (fst (snd (render ((fst (rendered counter_inst))\<lparr>signalIndex := 0\<rparr>) init_world))) 0 =
     Some (createSignal (Num 0)) \<and>
   signals (fst (reload (Some [(''title'', Str ''b'')])
                  ((fst (rendered counter_inst))\<lparr>signalIndex := 0\<rparr>) init_world)) 0 =
     Some (createSignal (Num 0))"
proof -
  have filled: "signals ((fst (rendered counter_inst))\<lparr>signalIndex := 0\<rparr>) 0 = Some (createSignal (Num 0))"
    by code_simp
  show ?thesis
    using filled
      signal_slot_reuse [OF filled, of "Num 5" init_world "Some [(''title'', Str ''b'')]"]
    by simp
qed

lemma hasSameProps_undefined:
  "prev i = None \<or> curr i = None \<Longrightarrow> \<not> hasSameProps i"
  by (auto simp: hasSameProps_def split: option.splits)

lemma reload_rerenders:
  assumes "lastRenderResult i = Some old"
    and "\<not> hasSameProps (updateProps newProps (i\<lparr>signalIndex := 0\<rparr>))"
  shows "reload newProps i d =
           (fst (snd (render (updateProps newProps (i\<lparr>signalIndex := 0\<rparr>)) d)),
            dom_replaceWith old (next_node d)
              (snd (snd (render (updateProps newProps (i\<lparr>signalIndex := 0\<rparr>)) d))))"
  using assms render_fst [of "updateProps newProps (i\<lparr>signalIndex := 0\<rparr>)" d]
  by (simp add: reload_def Let_def case_prod_beta updateProps_def)

lemma reload_skips:
  assumes "lastRenderResult i = None \<or> hasSameProps (updateProps newProps (i\<lparr>signalIndex := 0\<rparr>))"
  shows "reload newProps i d = (updateProps newProps (i\<lparr>signalIndex := 0\<rparr>), d)"
  using assms by (auto simp: reload_def Let_def updateProps_def split: option.splits)

lemma trace_replaceWith: "trace (dom_replaceWith a b d) = trace d @ [DomReplaceWith a b]"
  by (simp add: dom_replaceWith_def emit_def Let_def split: option.splits)

text \<open>
  \<^bold>\<open>C9.\<close> For an instance that has a rendered node (without one there is nothing to
  replace and \<^verbatim>\<open>reload\<close> only stores the props: \<open>reload_skips\<close>), a \<^verbatim>\<open>reload\<close> in which the previous
  or the new props are \<^verbatim>\<open>undefined\<close> (so every \<^verbatim>\<open>reload\<close> of an instance of a definition
  without props) calls the render function again with the new props and replaces the
  rendered node by the new one, also when the new props equal the old:
  \<^verbatim>\<open>hasSameProps\<close> is falsy as soon as one snapshot is \<^verbatim>\<open>undefined\<close>
  (\<open>hasSameProps_undefined\<close>).
\<close>

theorem reload_without_props:
  assumes "lastRenderResult i = Some old" and "curr i = None \<or> newProps = None"
  shows "reload newProps i d =
           (fst (snd (render (updateProps newProps (i\<lparr>signalIndex := 0\<rparr>)) d)),
            dom_replaceWith old (next_node d)
              (snd (snd (render (updateProps newProps (i\<lparr>signalIndex := 0\<rparr>)) d)))) \<and>
         lastRenderResult (fst (reload newProps i d)) = Some (next_node d) \<and>
         (\<exists>es. trace (snd (reload newProps i d)) =
                 trace d @ RanRenderer newProps # es @ [DomReplaceWith old (next_node d)])"
proof -
  let ?i1 = "updateProps newProps (i\<lparr>signalIndex := 0\<rparr>)"
  have "prev ?i1 = None \<or> curr ?i1 = None"
    using assms(2) by (auto simp: updateProps_def)
  then have differ: "\<not> hasSameProps ?i1" by (rule hasSameProps_undefined)
  have r: "reload newProps i d =
      (fst (snd (render ?i1 d)), dom_replaceWith old (next_node d) (snd (snd (render ?i1 d))))"
    using assms(1) differ by (rule reload_rerenders)
  obtain es where es: "snd (snd (render ?i1 d)) =
     d\<lparr>trace := trace d @ RanRenderer (curr ?i1) # es,
       is_element := (is_element d)(next_node d := True), next_node := Suc (next_node d)\<rparr>"
    using render_dom [of ?i1 d] by blast
  have "trace (snd (reload newProps i d)) =
          trace d @ RanRenderer newProps # es @ [DomReplaceWith old (next_node d)]"
    unfolding r using es by (simp add: trace_replaceWith updateProps_def)
  then show ?thesis
    using r render_inst [of ?i1 d] by auto
qed

theorem reload_without_props_witness:
  "lastRenderResult (fst (rendered plain_inst)) = Some 0 \<and>
   curr (fst (rendered plain_inst)) = None \<and>
   lastRenderResult (fst (reload None (fst (rendered plain_inst)) (snd (rendered plain_inst)))) = Some 1 \<and>
   trace (snd (reload None (fst (rendered plain_inst)) (snd (rendered plain_inst)))) =
     [RanRenderer None, RanRenderer None, DomReplaceWith 0 1]"
proof -
  have a: "lastRenderResult (fst (rendered plain_inst)) = Some 0" by code_simp
  have b: "curr (fst (rendered plain_inst)) = None \<or> (None :: props) = None" by simp
  have c: "curr (fst (rendered plain_inst)) = None" by code_simp
  have n: "next_node (snd (rendered plain_inst)) = 1" by code_simp
  have t: "trace (snd (reload None (fst (rendered plain_inst)) (snd (rendered plain_inst)))) =
     [RanRenderer None, RanRenderer None, DomReplaceWith 0 1]" by code_simp
  have "lastRenderResult (fst (reload None (fst (rendered plain_inst)) (snd (rendered plain_inst)))) =
          Some (next_node (snd (rendered plain_inst)))"
    using reload_without_props [OF a b, of "snd (rendered plain_inst)"] by blast
  then show ?thesis
    using a c t n by simp
qed

text \<open>What holds of the claim about prop memoization: props that are shallow-equal in
  the words of the specification are the same props for the code, and then \<^verbatim>\<open>reload\<close>
  neither calls the render function nor touches the document; props that
  \<^verbatim>\<open>isSameProps\<close> tells apart make a rendered instance render again.\<close>

lemma shallow_equal_isSameProps:
  assumes "spec_shallow_equal a b" and "distinct (object_keys a)" and "distinct (object_keys b)"
  shows "isSameProps a b"
proof -
  have "length (object_keys a) = length (object_keys b)"
    using assms by (metis distinct_card spec_shallow_equal_def)
  then show ?thesis using assms(1) by (simp add: isSameProps_def spec_shallow_equal_def)
qed

lemma reload_shallow_equal_skips:
  assumes "curr i = Some a" and "spec_shallow_equal a b"
    and "distinct (object_keys a)" and "distinct (object_keys b)"
  shows "reload (Some b) i d = (updateProps (Some b) (i\<lparr>signalIndex := 0\<rparr>), d)"
proof -
  have "hasSameProps (updateProps (Some b) (i\<lparr>signalIndex := 0\<rparr>))"
    using assms shallow_equal_isSameProps [of a b]
    by (simp add: hasSameProps_def updateProps_def)
  then show ?thesis by (simp add: reload_skips)
qed

lemma reload_different_rerenders:
  assumes "lastRenderResult i = Some old" and "curr i = Some a" and "\<not> isSameProps a b"
  shows "reload (Some b) i d =
           (fst (snd (render (updateProps (Some b) (i\<lparr>signalIndex := 0\<rparr>)) d)),
            dom_replaceWith old (next_node d)
              (snd (snd (render (updateProps (Some b) (i\<lparr>signalIndex := 0\<rparr>)) d))))"
  using assms by (intro reload_rerenders) (simp_all add: hasSameProps_def updateProps_def)

text \<open>
  \<^bold>\<open>C5.\<close> The claim says that a \<^verbatim>\<open>reload\<close> with props that differ from the previous ones
  renders again and replaces the node. \<^verbatim>\<open>isSameProps\<close> compares the number of keys and
  then reads every key of the old object in the new one, where a missing key reads as
  \<^verbatim>\<open>undefined\<close>. For the rendered instance with props \<^verbatim>\<open>{x: undefined}\<close> and the new props
  \<^verbatim>\<open>{y: 1}\<close> the key sets differ, yet the code takes the props for the same ones: after
  \<^verbatim>\<open>reload({y: 1})\<close> the trace still holds the single call of the render function and the
  rendered node is the old one.
\<close>

theorem reload_skips_changed_props:
  "\<not> spec_shallow_equal [(''x'', Undefined)] [(''y'', Num 1)] \<and>
   isSameProps [(''x'', Undefined)] [(''y'', Num 1)] \<and>
   curr (fst (rendered optional_inst)) = Some [(''x'', Undefined)] \<and>
   lastRenderResult (fst (rendered optional_inst)) = Some 0 \<and>
   trace (snd (rendered optional_inst)) = [RanRenderer (Some [(''x'', Undefined)])] \<and>
   lastRenderResult (fst (reload (Some [(''y'', Num 1)]) (fst (rendered optional_inst))
                            (snd (rendered optional_inst)))) = Some 0 \<and>
   trace (snd (reload (Some [(''y'', Num 1)]) (fst (rendered optional_inst))
                 (snd (rendered optional_inst)))) = [RanRenderer (Some [(''x'', Undefined)])]"
  by code_simp

lemma effects_append: "effects (xs @ ys) = effects xs @ effects ys"
  by (induction xs rule: effects.induct) auto

lemma cleanups_append: "cleanups (xs @ ys) = cleanups xs @ cleanups ys"
  by (induction xs rule: cleanups.induct) auto

lemma run_hook_effects:
  "hasRendered (fst (run_hook h (i, d))) = hasRendered i \<and>
   renderer (fst (run_hook h (i, d))) = renderer i \<and>
   curr (fst (run_hook h (i, d))) = curr i \<and>
   effects (trace (snd (run_hook h (i, d)))) =
     effects (trace d) @ (if hasRendered i then [] else mount_effects [h])"
  by (cases h)
     (auto simp: tool_signal_fields tool_mount_def emit_def effects_append split: option.splits)

lemma mount_effects_Cons: "mount_effects (h # hs) = mount_effects [h] @ mount_effects hs"
  by (cases h) simp_all

lemma fold_run_hook_effects:
  "hasRendered (fst (fold run_hook hs (i, d))) = hasRendered i \<and>
   renderer (fst (fold run_hook hs (i, d))) = renderer i \<and>
   curr (fst (fold run_hook hs (i, d))) = curr i \<and>
   effects (trace (snd (fold run_hook hs (i, d)))) =
     effects (trace d) @ (if hasRendered i then [] else mount_effects hs)"
proof (induction hs arbitrary: i d)
  case Nil
  show ?case by simp
next
  case (Cons h hs)
  obtain i1 d1 where step: "run_hook h (i, d) = (i1, d1)" by (cases "run_hook h (i, d)")
  show ?case
    using step Cons.IH [of i1 d1] run_hook_effects [of h i d] mount_effects_Cons [of h hs]
    by simp
qed

lemma render_effects:
  "hasRendered (fst (snd (render i d))) \<and>
   renderer (fst (snd (render i d))) = renderer i \<and>
   curr (fst (snd (render i d))) = curr i \<and>
   effects (trace (snd (snd (render i d)))) =
     effects (trace d) @ (if hasRendered i then [] else mount_effects (renderer i (curr i)))"
  using fold_run_hook_effects [of "renderer i (curr i)" "i\<lparr>signalIndex := 0\<rparr>"
          "emit (RanRenderer (curr i)) d"]
  by (simp add: render_def createElement_def emit_def Let_def case_prod_beta effects_append)

text \<open>What holds of the claim about mount effects: over any number \<open>n + 1\<close> of renders of
  a fresh instance, the effects named by the \<^verbatim>\<open>$mount\<close> calls of its render function run
  once each, in the first render; and one \<^verbatim>\<open>destroy\<close> runs every retained cleanup once.\<close>

lemma render_times_rendered:
  "hasRendered i \<Longrightarrow> effects (trace (snd (render_times n i d))) = effects (trace d)"
proof (induction n arbitrary: i d)
  case 0
  show ?case by simp
next
  case (Suc n)
  then show ?case
    using render_effects [of i d] by (simp add: case_prod_beta)
qed

lemma mount_effect_runs_once:
  assumes "\<not> hasRendered i"
  shows "effects (trace (snd (render_times (Suc n) i d))) =
           effects (trace d) @ mount_effects (renderer i (curr i))"
  using assms render_effects [of i d]
    render_times_rendered [of "fst (snd (render i d))" n "snd (snd (render i d))"]
  by (simp add: case_prod_beta)

lemma fold_emit_cleanups:
  "cleanups (trace (fold (\<lambda>u. emit (RanCleanup u)) us d)) = cleanups (trace d) @ us"
  by (induction us arbitrary: d) (simp_all add: emit_def cleanups_append)

lemma destroy_runs_cleanups_once:
  "cleanups (trace (onDestroy i d)) = cleanups (trace d) @ set_elems (unmounts i)"
  by (cases "lastRenderResult i")
     (simp_all add: onDestroy_def fold_emit_cleanups dom_remove_def emit_def cleanups_append)

text \<open>
  \<^bold>\<open>C6.\<close> The claim says that the cleanup returned by a \<^verbatim>\<open>$mount\<close> effect runs exactly once,
  at destroy time, and never more. \<^verbatim>\<open>onDestroy\<close> runs every cleanup in \<^verbatim>\<open>unmounts\<close> and
  leaves the set as it is, and \<^verbatim>\<open>replace\<close> of an instance calls \<^verbatim>\<open>onDestroy\<close> too. In
  \<^verbatim>\<open>$if(flag)(Mounted(), div()())\<close> the instance is rendered once (its effect 10 runs
  once); when the flag is written to \<^verbatim>\<open>false\<close>, the listener of the conditional calls
  \<^verbatim>\<open>replace\<close> and then \<^verbatim>\<open>destroy\<close> on the instance, and the cleanup 20 runs twice.
\<close>

theorem mount_cleanup_runs_twice:
  "trace (snd mount_ex) = [Called 0 MRender, RanRenderer None, RanEffect 10] \<and>
   map_option fst (sig_write mount_ex_listener 10 0 (Direct (Bool False)) (snd mount_ex)) = Some [5] \<and>
   map_option (trace \<circ> snd) (sig_write mount_ex_listener 10 0 (Direct (Bool False)) (snd mount_ex)) =
     Some [Called 0 MRender, RanRenderer None, RanEffect 10,
           Called 0 (MReplace 1), Called 1 MRender, DomReplaceWith 0 1, DomRemove 0, RanCleanup 20,
           Called 0 MDestroy, DomRemove 0, RanCleanup 20]"
  by code_simp

text \<open>What holds of the claim about conditional stability: when the branch decided is
  the component held, the listener of \<^verbatim>\<open>$if\<close> does nothing beyond evaluating the
  predicate.\<close>

lemma if_rerender_same_branch:
  assumes "condition w = (b, w1)" and "i_component st = Some c"
    and "if b then c = whenTrue else whenFalse = Some c"
  shows "if_rerender condition whenTrue whenFalse st w = (c, st, w1)"
  using assms by (auto simp: if_rerender_def split: if_splits)

text \<open>
  \<^bold>\<open>C7.\<close> The claim says that no \<^verbatim>\<open>replace\<close> occurs when the predicate gives the same
  boolean on two consecutive notifications, also when the false branch is absent. The
  listener evaluates \<^verbatim>\<open>whenFalse ?? createEmptyComponent()\<close> on every run, so without a
  false branch each run builds a new placeholder, which differs by reference from the
  one held. In \<^verbatim>\<open>$if(flag)(div()())\<close> over a flag that stays false, the conditional holds
  placeholder 1; the first notification replaces it by placeholder 2 and the second
  replaces that by placeholder 3.
\<close>

theorem placeholder_replaced_on_same_decision:
  "i_component (fst if_ex) = Some 1 \<and>
   fst (signal_is_true 0 (snd if_ex)) = False \<and>
   i_component (fst (snd if_ex_1)) = Some 2 \<and>
   fst (signal_is_true 0 (snd (snd if_ex_1))) = False \<and>
   i_component (fst (snd if_ex_2)) = Some 3 \<and>
   calls (trace (snd (snd if_ex_2))) =
     [(1, MRender),
      (1, MReplace 2), (2, MRender), (1, MDestroy),
      (2, MReplace 3), (3, MRender), (2, MDestroy)]"
  by code_simp

text \<open>Rendering an intrinsic element that has been rendered before puts a new
  element in the place of its old one.\<close>

lemma c_render_leaf:
  assumes "comps w c = Leaf (Some el)"
  shows "trace (snd (c_render c w)) = trace w @ [Called c MRender, DomReplaceWith el (next_node w)]"
  using assms
  by (simp add: c_render_def createElement_def emit_def Let_def trace_replaceWith)

text \<open>What the listener of a binding does. A binding made by \<^verbatim>\<open>$bind\<close> holds a
  component; the listener of a binding that holds a component calls \<^verbatim>\<open>render\<close> on that
  component and nothing else, and only the listener of a binding that holds no
  component calls the callback.\<close>

lemma bind_rerender_cases:
  "b_component (fst (bind_new self renderFn w0)) \<noteq> None \<and>
   (b_component b = Some c \<longrightarrow>
      bind_rerender renderFn b w = (c, b, snd (c_render c w)) \<and>
      calls (trace (snd (c_render c w))) = calls (trace w) @ [(c, MRender)]) \<and>
   (b_component b = None \<longrightarrow>
      bind_rerender renderFn b w =
        (fst (renderFn w), b\<lparr>b_component := Some (fst (renderFn w))\<rparr>, snd (renderFn w)))"
  by (simp add: bind_new_def bind_rerender_def Let_def case_prod_beta c_render_step)

text \<open>
  \<^bold>\<open>C1.\<close> The claim says that on a notification the binding invokes its callback again
  and, when the component produced differs from the one rendered, calls \<^verbatim>\<open>replace\<close> on
  the old one with the new one; the documentation of \<^verbatim>\<open>$bind\<close> shows the callback
  \<^verbatim>\<open>() => div(...)(`Hi ${myName()}`)\<close> as reactive. The listener is
  \<^verbatim>\<open>if (component) component.render(); else component = renderFn();\<close> and \<^verbatim>\<open>component\<close> is
  set when the binding is created, so the branch that invokes the callback is never
  taken. The binding \<^verbatim>\<open>$bind(() => div({})(greeting()))\<close> over a signal holding
  \<^verbatim>\<open>"hello"\<close> holds component 0, and a run of its callback would build component 1.
  Writing \<^verbatim>\<open>"bye"\<close> calls the listener 7 of the binding; afterwards the signal holds
  \<^verbatim>\<open>"bye"\<close>, no component has been built (the callback did not run), and the only calls
  recorded are the two \<^verbatim>\<open>render\<close> calls on component 0, the element that was built from
  \<^verbatim>\<open>"hello"\<close>: there is no \<^verbatim>\<open>replace\<close>.
\<close>

theorem bind_notification_skips_callback:
  "b_component (fst bind_ex) = Some 0 \<and>
   next_cid (snd bind_ex) = 1 \<and>
   fst (greeting_leaf (snd bind_ex)) = 1 \<and>
   calls (trace (snd bind_ex)) = [(0, MRender)] \<and>
   map_option fst (sig_write bind_ex_listener 10 0 (Direct (Str ''bye'')) (snd bind_ex)) = Some [7] \<and>
   map_option (fst \<circ> sig_read 0 \<circ> owner \<circ> snd)
     (sig_write bind_ex_listener 10 0 (Direct (Str ''bye'')) (snd bind_ex)) = Some (Str ''bye'') \<and>
   map_option (next_cid \<circ> snd) (sig_write bind_ex_listener 10 0 (Direct (Str ''bye'')) (snd bind_ex)) = Some 1 \<and>
   map_option (calls \<circ> trace \<circ> snd) (sig_write bind_ex_listener 10 0 (Direct (Str ''bye'')) (snd bind_ex)) =
     Some [(0, MRender), (0, MRender)]"
  by code_simp













lemma shape_cong:
  "shape a = shape b \<Longrightarrow>
   isCustomComponent a = isCustomComponent b \<and> serial_of a = serial_of b \<and> props_of a = props_of b"
  by (auto simp: shape_def isCustomComponent_def serial_of_def props_of_def split: comp.splits)

lemma evolves_shape: "evolves w w' \<Longrightarrow> shape (comps w' x) = shape (comps w x)"
  by (simp add: evolves_def)

lemma evolves_looks:
  assumes "evolves w w'"
  shows "isCustomComponent (comps w' x) = isCustomComponent (comps w x) \<and>
         serial_of (comps w' x) = serial_of (comps w x) \<and>
         props_of (comps w' x) = props_of (comps w x)"
  using shape_cong [OF evolves_shape [OF assms, of x]] .

lemma for_loop_reloads:
  assumes "list_all (\<lambda>i. i < length new \<and> i < length old \<and>
             isCustomComponent (comps w (old ! i)) \<and> isCustomComponent (comps w (new ! i)) \<and>
             serial_of (comps w (old ! i)) = serial_of (comps w (new ! i))) is"
  shows "\<exists>w'. for_loop old new is acc w = Some (acc @ map ((!) old) is, w') \<and> evolves w w' \<and>
              calls (trace w') =
                calls (trace w) @ map (\<lambda>i. (old ! i, MReload (props_of (comps w (new ! i))))) is"
  using assms
proof (induction "is" arbitrary: acc w)
  case Nil
  show ?case by (simp add: evolves_refl)
next
  case (Cons i "is")
  let ?w1 = "c_reload (old ! i) (props_of (comps w (new ! i))) w"
  have ev: "evolves w ?w1"
    and cl: "calls (trace ?w1) = calls (trace w) @ [(old ! i, MReload (props_of (comps w (new ! i))))]"
    using c_reload_step by blast+
  have same: "\<And>x. isCustomComponent (comps ?w1 x) = isCustomComponent (comps w x) \<and>
         serial_of (comps ?w1 x) = serial_of (comps w x) \<and>
         props_of (comps ?w1 x) = props_of (comps w x)"
    using evolves_looks [OF ev] by blast
  have "list_all (\<lambda>i. i < length new \<and> i < length old \<and>
             isCustomComponent (comps ?w1 (old ! i)) \<and> isCustomComponent (comps ?w1 (new ! i)) \<and>
             serial_of (comps ?w1 (old ! i)) = serial_of (comps ?w1 (new ! i))) is"
    using Cons.prems by (simp add: same)
  from Cons.IH [OF this, of "acc @ [old ! i]"] obtain w' where
    w': "for_loop old new is (acc @ [old ! i]) ?w1 = Some ((acc @ [old ! i]) @ map ((!) old) is, w')"
      "evolves ?w1 w'"
      "calls (trace w') =
         calls (trace ?w1) @ map (\<lambda>i. (old ! i, MReload (props_of (comps ?w1 (new ! i))))) is"
    by blast
  have "for_loop old new (i # is) acc w = Some (acc @ map ((!) old) (i # is), w')"
    using Cons.prems w'(1) by (simp add: Let_def)
  moreover have "evolves w w'" using ev w'(2) by (rule evolves_trans)
  moreover have "calls (trace w') =
      calls (trace w) @ map (\<lambda>i. (old ! i, MReload (props_of (comps w (new ! i))))) (i # is)"
    using w'(3) cl by (simp add: same)
  ultimately show ?case by blast
qed

lemma map2_nth:
  "length xs = length ys \<Longrightarrow> map (\<lambda>i. f (xs ! i) (ys ! i)) [0 ..< length xs] = map2 f xs ys"
  by (rule nth_equalityI) simp_all

text \<open>What holds of the claim about positional reconciliation. Let the list renderer
  hold the components \<open>old\<close> (not none), and let the builder return as many new
  components, such that at every index the old and the new component pass
  \<^verbatim>\<open>isCustomComponent\<close> and have one \<^verbatim>\<open>serial\<close>. Then a notification keeps every old
  instance at its index (the reconciled list is \<open>old\<close>); the only method calls are,
  index by index, \<^verbatim>\<open>reload\<close> on the old instance with the props of the new one at that
  index; and, for render functions as they are represented here, every hook slot of
  every component still holds the signal it held. The example reorders the items of
  three counters that have reached 1, 2 and 3.\<close>

lemma for_reconciles_by_position:
  assumes "f_components st = old" and "old \<noteq> []"
    and "items w = (xs, w1)" and "map_js renderItem xs w1 = (new, w2)"
    and "list_all2 (\<lambda>p n. isCustomComponent (comps w2 p) \<and> isCustomComponent (comps w2 n) \<and>
                          serial_of (comps w2 p) = serial_of (comps w2 n)) old new"
  shows "\<exists>w3. for_rerender items renderItem st w = Some (old, st, w3) \<and>
              calls (trace w3) =
                calls (trace w2) @ map2 (\<lambda>p n. (p, MReload (props_of (comps w2 n)))) old new \<and>
              (\<forall>c. signals_of (comps w2 c) \<subseteq>\<^sub>m signals_of (comps w3 c))"
proof -
  have len: "length old = length new" using assms(5) by (rule list_all2_lengthD)
  have "list_all (\<lambda>i. i < length new \<and> i < length old \<and>
             isCustomComponent (comps w2 (old ! i)) \<and> isCustomComponent (comps w2 (new ! i)) \<and>
             serial_of (comps w2 (old ! i)) = serial_of (comps w2 (new ! i))) [0 ..< length old]"
    using assms(5) len by (auto simp: list_all_iff list_all2_conv_all_nth)
  from for_loop_reloads [OF this, of "[]"] obtain w3 where
    w3: "for_loop old new [0 ..< length old] [] w2 = Some (map ((!) old) [0 ..< length old], w3)"
      "evolves w2 w3"
      "calls (trace w3) = calls (trace w2) @
         map (\<lambda>i. (old ! i, MReload (props_of (comps w2 (new ! i))))) [0 ..< length old]"
    by auto
  have st: "st\<lparr>f_components := old\<rparr> = st" using assms(1) by simp
  have "map ((!) old) [0 ..< length old] = old" by (rule map_nth)
  then have "for_loop old new [0 ..< length old] [] w2 = Some (old, w3)"
    using w3(1) by simp
  then have loop: "for_loop old new [0 ..< length new] [] w2 = Some (old, w3)"
    unfolding len .
  have "old \<noteq> [] \<and> new \<noteq> []" using assms(2) len by auto
  then have "for_rerender items renderItem st w = Some (old, st, w3)"
    using assms(1,3,4) len loop st by (simp add: for_rerender_def)
  moreover have "calls (trace w3) =
      calls (trace w2) @ map2 (\<lambda>p n. (p, MReload (props_of (comps w2 n)))) old new"
    using w3(3) map2_nth [OF len, of "\<lambda>p n. (p, MReload (props_of (comps w2 n)))"] by simp
  moreover have "\<forall>c. signals_of (comps w2 c) \<subseteq>\<^sub>m signals_of (comps w3 c)"
    using w3(2) by (simp add: evolves_def)
  ultimately show ?thesis by blast
qed


lemma for_reconciles_by_position_example:
  "signals_of (comps (snd (map_js counter_item [Str ''c'', Str ''a'', Str ''b''] (snd counters_ex))) 0) 0 =
     Some \<lparr>sig_value = Num 1, listeners = []\<rparr> \<and>
   signals_of (comps (snd (map_js counter_item [Str ''c'', Str ''a'', Str ''b''] (snd counters_ex))) 1) 0 =
     Some \<lparr>sig_value = Num 2, listeners = []\<rparr> \<and>
   signals_of (comps (snd (map_js counter_item [Str ''c'', Str ''a'', Str ''b''] (snd counters_ex))) 2) 0 =
     Some \<lparr>sig_value = Num 3, listeners = []\<rparr> \<and>
   (\<exists>w3. for_rerender (items_of [Str ''c'', Str ''a'', Str ''b'']) counter_item
            (fst counters_ex) (snd counters_ex) = Some ([0, 1, 2], fst counters_ex, w3) \<and>
         calls (trace w3) =
           calls (trace (snd (map_js counter_item [Str ''c'', Str ''a'', Str ''b''] (snd counters_ex)))) @
           map2 (\<lambda>p n. (p, MReload (props_of
                   (comps (snd (map_js counter_item [Str ''c'', Str ''a'', Str ''b''] (snd counters_ex))) n))))
             [0, 1, 2] [3, 4, 5] \<and>
         (\<forall>c. signals_of (comps (snd (map_js counter_item [Str ''c'', Str ''a'', Str ''b''] (snd counters_ex))) c)
                \<subseteq>\<^sub>m signals_of (comps w3 c)))"
proof -
  let ?xs = "[Str ''c'', Str ''a'', Str ''b'']"
  let ?w2 = "snd (map_js counter_item ?xs (snd counters_ex))"
  have held: "f_components (fst counters_ex) = [0, 1, 2]" by code_simp
  have some: "[0, 1, 2] \<noteq> ([] :: cid list)" by simp
  have items: "items_of ?xs (snd counters_ex) = (?xs, snd counters_ex)" by (simp only: items_of_def)
  have new: "fst (map_js counter_item ?xs (snd counters_ex)) = [3, 4, 5]" by code_simp
  have built: "map_js counter_item ?xs (snd counters_ex) = ([3, 4, 5], ?w2)"
    by (rule prod_eqI) (simp_all only: new fst_conv snd_conv)
  have alike: "list_all2 (\<lambda>p n. isCustomComponent (comps ?w2 p) \<and> isCustomComponent (comps ?w2 n) \<and>
                 serial_of (comps ?w2 p) = serial_of (comps ?w2 n)) [0, 1, 2] [3, 4, 5]"
    by code_simp
  have s0: "signals_of (comps ?w2 0) 0 = Some \<lparr>sig_value = Num 1, listeners = []\<rparr>" by code_simp
  have s1: "signals_of (comps ?w2 1) 0 = Some \<lparr>sig_value = Num 2, listeners = []\<rparr>" by code_simp
  have s2: "signals_of (comps ?w2 2) 0 = Some \<lparr>sig_value = Num 3, listeners = []\<rparr>" by code_simp
  note ex = for_reconciles_by_position [where items = "items_of ?xs" and w = "snd counters_ex"
      and renderItem = counter_item and st = "fst counters_ex", OF held some items built alike]
  show ?thesis
    by (intro conjI) (rule s0, rule s1, rule s2, rule ex)
qed

text \<open>
  \<^bold>\<open>C3.\<close> The claim says that in every list of \<^verbatim>\<open>$\<close> instances of one definition the old
  instance at each index is kept and reloaded, and the documentation says that any
  stateful component rendered by \<^verbatim>\<open>$for\<close> keeps its state. The loop decides with
  \<^verbatim>\<open>isCustomComponent\<close>, which asks for a \<^verbatim>\<open>props\<close> object, so it does not recognise the
  instances of a definition without props, although they are \<^verbatim>\<open>$\<close> instances with a
  \<^verbatim>\<open>serial\<close> and a \<^verbatim>\<open>reload\<close>. The list renderer over \<^verbatim>\<open>(item) => Plain()\<close> holds instance
  0 of definition 4; on a notification with the same single item the builder makes
  instance 1 of that definition, instance 0 receives \<^verbatim>\<open>replace\<close> instead of \<^verbatim>\<open>reload\<close>, and
  the reconciled list is \<open>[1]\<close>: the old instance and its state are not kept.
\<close>

theorem for_replaces_instance_without_props:
  "f_components (fst (for_ex plain_item [Str ''a''])) = [0] \<and>
   serial_of (comps (snd (for_ex plain_item [Str ''a''])) 0) = Some 4 \<and>
   map_option fst again_plain = Some [1] \<and>
   serial_of (comps (snd (snd (the again_plain))) 1) = Some 4 \<and>
   map_option (calls \<circ> trace \<circ> snd \<circ> snd) again_plain =
     Some [(0, MRender), (0, MReplace 1), (1, MRender)]"
  by code_simp

text \<open>What a \<^verbatim>\<open>reload\<close> with props that the code takes for the same does to an instance:
  it stores the props and resets the slot counter; the render function is not called
  and the document is not touched.\<close>

lemma c_reload_same_props:
  assumes "comps w c = Custom i" and "hasSameProps (updateProps p (i\<lparr>signalIndex := 0\<rparr>))"
  shows "c_reload c p w =
           (emit (Called c (MReload p)) w)
             \<lparr>comps := (comps w)(c := Custom (updateProps p (i\<lparr>signalIndex := 0\<rparr>)))\<rparr>"
  using assms by (simp add: c_reload_def reload_skips emit_def)

lemma serial_of_None: "serial_of v = None \<Longrightarrow> \<not> isCustomComponent v"
  by (auto simp: serial_of_def isCustomComponent_def split: comp.splits)

lemma isCustomComponent_not_placeholder: "isCustomComponent v \<Longrightarrow> \<not> isPlaceholder v"
  by (auto simp: isPlaceholder_def isCustomComponent_def split: comp.splits)

lemma evolves_placeholder:
  "evolves w w' \<Longrightarrow> isPlaceholder (comps w' x) = isPlaceholder (comps w x)"
  by (simp add: evolves_def)

text \<open>
  \<^bold>\<open>C4, amended.\<close> What a notification of a list renderer does when the list grows from
  \<open>[a]\<close> to two items and when it shrinks from \<open>[a, b]\<close> to one item depends on the
  retained entry \<open>a\<close>.
  \<^item> If \<open>a\<close> and the new component at its index pass \<^verbatim>\<open>isCustomComponent\<close> and have one
    \<^verbatim>\<open>serial\<close>, the old instance is kept and receives \<^verbatim>\<open>reload\<close> with the new props.
    Growing adds exactly one \<^verbatim>\<open>append\<close> (on \<open>a\<close>, which renders the new trailing
    component) and no \<^verbatim>\<open>replace\<close> or \<^verbatim>\<open>destroy\<close>; shrinking adds exactly one \<^verbatim>\<open>destroy\<close>,
    on the trailing entry, and nothing else.
  \<^item> If \<open>a\<close> is not a \<^verbatim>\<open>$\<close> instance (an intrinsic element, or the placeholder of an
    empty list), it receives \<^verbatim>\<open>replace\<close> with the new component at its index, which
    takes its place in the list. Growing then adds exactly one \<^verbatim>\<open>append\<close>, on that new
    component (which is not a placeholder: \<^verbatim>\<open>createEmptyComponent\<close> is not exported, so a
    builder cannot return one); shrinking adds exactly one \<^verbatim>\<open>destroy\<close>, on the trailing
    entry.
  Nothing is said here of \<^verbatim>\<open>$\<close> instances that \<^verbatim>\<open>isCustomComponent\<close> does not recognise.
\<close>

theorem for_grow_and_shrink:
  "(f_components st = [a] \<and> items w = (xs, w1) \<and> map_js renderItem xs w1 = ([a', b'], w2) \<and>
    isCustomComponent (comps w2 a) \<and> isCustomComponent (comps w2 a') \<and>
    serial_of (comps w2 a) = serial_of (comps w2 a') \<longrightarrow>
      (\<exists>w3. for_rerender items renderItem st w = Some ([a, b'], st\<lparr>f_components := [a, b']\<rparr>, w3) \<and>
            calls (trace w3) =
              calls (trace w2) @
                [(a, MReload (props_of (comps w2 a'))), (a, MAppend b'), (b', MRender)])) \<and>
   (f_components st = [a, b] \<and> items w = (xs, w1) \<and> map_js renderItem xs w1 = ([a'], w2) \<and>
    isCustomComponent (comps w2 a) \<and> isCustomComponent (comps w2 a') \<and>
    serial_of (comps w2 a) = serial_of (comps w2 a') \<longrightarrow>
      (\<exists>w3. for_rerender items renderItem st w = Some ([a], st\<lparr>f_components := [a]\<rparr>, w3) \<and>
            calls (trace w3) =
              calls (trace w2) @ [(a, MReload (props_of (comps w2 a'))), (b, MDestroy)])) \<and>
   (f_components st = [a] \<and> items w = (xs, w1) \<and> map_js renderItem xs w1 = ([a', b'], w2) \<and>
    serial_of (comps w2 a) = None \<and> \<not> isPlaceholder (comps w2 a') \<longrightarrow>
      (\<exists>w3. for_rerender items renderItem st w = Some ([a', b'], st\<lparr>f_components := [a', b']\<rparr>, w3) \<and>
            calls (trace w3) =
              calls (trace w2) @
                [(a, MReplace a'), (a', MRender), (a', MAppend b'), (b', MRender)])) \<and>
   (f_components st = [a, b] \<and> items w = (xs, w1) \<and> map_js renderItem xs w1 = ([a'], w2) \<and>
    serial_of (comps w2 a) = None \<longrightarrow>
      (\<exists>w3. for_rerender items renderItem st w = Some ([a'], st\<lparr>f_components := [a']\<rparr>, w3) \<and>
            calls (trace w3) =
              calls (trace w2) @ [(a, MReplace a'), (a', MRender), (b, MDestroy)]))"
proof (intro conjI impI)
  assume h: "f_components st = [a] \<and> items w = (xs, w1) \<and> map_js renderItem xs w1 = ([a', b'], w2) \<and>
    isCustomComponent (comps w2 a) \<and> isCustomComponent (comps w2 a') \<and>
    serial_of (comps w2 a) = serial_of (comps w2 a')"
  let ?p = "props_of (comps w2 a')"
  let ?wr = "c_reload a ?p w2"
  have ev: "evolves w2 ?wr" using c_reload_step [of w2 a ?p] by blast
  have "\<not> isPlaceholder (comps ?wr a)"
    using h evolves_placeholder [OF ev, of a] isCustomComponent_not_placeholder [of "comps w2 a"]
    by simp
  from c_append_step [OF this, of b'] obtain w3 where
    w3: "c_append a b' ?wr = Some w3"
      "calls (trace w3) = calls (trace ?wr) @ [(a, MAppend b'), (b', MRender)]"
    by blast
  have loop: "for_loop [a] [a', b'] [0, Suc 0] [] w2 = Some ([a, b'], w3)"
    using h w3(1) by (simp add: Let_def)
  have idx: "[0 ..< Suc (Suc 0)] = [0, Suc 0]" by (simp add: upt_rec)
  have "for_rerender items renderItem st w = Some ([a, b'], st\<lparr>f_components := [a, b']\<rparr>, w3)"
    using h loop unfolding for_rerender_def by (simp add: idx del: for_loop.simps upt_Suc)
  moreover have "calls (trace w3) = calls (trace w2) @ [(a, MReload ?p), (a, MAppend b'), (b', MRender)]"
    using w3(2) c_reload_step [of w2 a ?p] by simp
  ultimately show "\<exists>w3. for_rerender items renderItem st w = Some ([a, b'], st\<lparr>f_components := [a, b']\<rparr>, w3) \<and>
            calls (trace w3) =
              calls (trace w2) @ [(a, MReload ?p), (a, MAppend b'), (b', MRender)]"
    by blast
next
  assume h: "f_components st = [a, b] \<and> items w = (xs, w1) \<and> map_js renderItem xs w1 = ([a'], w2) \<and>
    isCustomComponent (comps w2 a) \<and> isCustomComponent (comps w2 a') \<and>
    serial_of (comps w2 a) = serial_of (comps w2 a')"
  let ?p = "props_of (comps w2 a')"
  let ?w3 = "c_destroy b (c_reload a ?p w2)"
  have loop: "for_loop [a, b] [a'] [0, Suc 0] [] w2 = Some ([a], ?w3)"
    using h by (simp add: Let_def)
  have idx: "[0 ..< Suc (Suc 0)] = [0, Suc 0]" by (simp add: upt_rec)
  have "for_rerender items renderItem st w = Some ([a], st\<lparr>f_components := [a]\<rparr>, ?w3)"
    using h loop unfolding for_rerender_def by (simp add: idx del: for_loop.simps upt_Suc)
  moreover have "calls (trace ?w3) = calls (trace w2) @ [(a, MReload ?p), (b, MDestroy)]"
    using c_destroy_step [of "c_reload a ?p w2" b] c_reload_step [of w2 a ?p] by simp
  ultimately show "\<exists>w3. for_rerender items renderItem st w = Some ([a], st\<lparr>f_components := [a]\<rparr>, w3) \<and>
            calls (trace w3) = calls (trace w2) @ [(a, MReload ?p), (b, MDestroy)]"
    by blast
next
  assume h: "f_components st = [a] \<and> items w = (xs, w1) \<and> map_js renderItem xs w1 = ([a', b'], w2) \<and>
    serial_of (comps w2 a) = None \<and> \<not> isPlaceholder (comps w2 a')"
  let ?wr = "c_replace a a' w2"
  have other: "\<not> isCustomComponent (comps w2 a)" using h serial_of_None by blast
  have ev: "evolves w2 ?wr" using c_replace_step [of w2 a a'] by blast
  have "\<not> isPlaceholder (comps ?wr a')"
    using h evolves_placeholder [OF ev, of a'] by simp
  from c_append_step [OF this, of b'] obtain w3 where
    w3: "c_append a' b' ?wr = Some w3"
      "calls (trace w3) = calls (trace ?wr) @ [(a', MAppend b'), (b', MRender)]"
    by blast
  have loop: "for_loop [a] [a', b'] [0, Suc 0] [] w2 = Some ([a', b'], w3)"
    using h other w3(1) by (simp add: Let_def)
  have idx: "[0 ..< Suc (Suc 0)] = [0, Suc 0]" by (simp add: upt_rec)
  have "for_rerender items renderItem st w = Some ([a', b'], st\<lparr>f_components := [a', b']\<rparr>, w3)"
    using h loop unfolding for_rerender_def by (simp add: idx del: for_loop.simps upt_Suc)
  moreover have "calls (trace w3) =
      calls (trace w2) @ [(a, MReplace a'), (a', MRender), (a', MAppend b'), (b', MRender)]"
    using w3(2) c_replace_step [of w2 a a'] by simp
  ultimately show "\<exists>w3. for_rerender items renderItem st w = Some ([a', b'], st\<lparr>f_components := [a', b']\<rparr>, w3) \<and>
            calls (trace w3) =
              calls (trace w2) @ [(a, MReplace a'), (a', MRender), (a', MAppend b'), (b', MRender)]"
    by blast
next
  assume h: "f_components st = [a, b] \<and> items w = (xs, w1) \<and> map_js renderItem xs w1 = ([a'], w2) \<and>
    serial_of (comps w2 a) = None"
  let ?w3 = "c_destroy b (c_replace a a' w2)"
  have other: "\<not> isCustomComponent (comps w2 a)" using h serial_of_None by blast
  have loop: "for_loop [a, b] [a'] [0, Suc 0] [] w2 = Some ([a'], ?w3)"
    using h other by (simp add: Let_def)
  have idx: "[0 ..< Suc (Suc 0)] = [0, Suc 0]" by (simp add: upt_rec)
  have "for_rerender items renderItem st w = Some ([a'], st\<lparr>f_components := [a']\<rparr>, ?w3)"
    using h loop unfolding for_rerender_def by (simp add: idx del: for_loop.simps upt_Suc)
  moreover have "calls (trace ?w3) = calls (trace w2) @ [(a, MReplace a'), (a', MRender), (b, MDestroy)]"
    using c_destroy_step [of "c_replace a a' w2" b] c_replace_step [of w2 a a'] by simp
  ultimately show "\<exists>w3. for_rerender items renderItem st w = Some ([a'], st\<lparr>f_components := [a']\<rparr>, w3) \<and>
            calls (trace w3) = calls (trace w2) @ [(a, MReplace a'), (a', MRender), (b, MDestroy)]"
    by blast
qed

theorem for_grow_and_shrink_witness:
  "(\<exists>w3. for_rerender (items_of [Str ''a'', Str ''b'']) counter_item
            \<lparr>f_components = [0], f_unsubscribers = []\<rparr> (snd counters_ex) =
            Some ([0, 4], \<lparr>f_components = [0], f_unsubscribers = []\<rparr>\<lparr>f_components := [0, 4]\<rparr>, w3) \<and>
          calls (trace w3) =
            [] @ [(0, MReload (Some [(''title'', Str ''a'')])), (0, MAppend 4), (4, MRender)]) \<and>
   (\<exists>w3. for_rerender (items_of [Str ''a'']) counter_item
            \<lparr>f_components = [0, 1], f_unsubscribers = []\<rparr> (snd counters_ex) =
            Some ([0], \<lparr>f_components = [0, 1], f_unsubscribers = []\<rparr>\<lparr>f_components := [0]\<rparr>, w3) \<and>
          calls (trace w3) = [] @ [(0, MReload (Some [(''title'', Str ''a'')])), (1, MDestroy)]) \<and>
   (\<exists>w3. for_rerender (items_of [Str ''a'', Str ''b'']) li_item
            \<lparr>f_components = [0], f_unsubscribers = []\<rparr> elements_ex =
            Some ([2, 3], \<lparr>f_components = [0], f_unsubscribers = []\<rparr>\<lparr>f_components := [2, 3]\<rparr>, w3) \<and>
          calls (trace w3) = [] @ [(0, MReplace 2), (2, MRender), (2, MAppend 3), (3, MRender)]) \<and>
   (\<exists>w3. for_rerender (items_of [Str ''a'']) li_item
            \<lparr>f_components = [0, 1], f_unsubscribers = []\<rparr> elements_ex =
            Some ([2], \<lparr>f_components = [0, 1], f_unsubscribers = []\<rparr>\<lparr>f_components := [2]\<rparr>, w3) \<and>
          calls (trace w3) = [] @ [(0, MReplace 2), (2, MRender), (1, MDestroy)])"
proof -
  let ?g = "[Str ''a'', Str ''b'']" and ?s = "[Str ''a'']"
  let ?wg = "snd (map_js counter_item ?g (snd counters_ex))"
  let ?ws = "snd (map_js counter_item ?s (snd counters_ex))"
  let ?eg = "snd (map_js li_item ?g elements_ex)"
  let ?es = "snd (map_js li_item ?s elements_ex)"
  have ig: "items_of ?g (snd counters_ex) = (?g, snd counters_ex)" by (simp only: items_of_def)
  have it: "items_of ?s (snd counters_ex) = (?s, snd counters_ex)" by (simp only: items_of_def)
  have jg: "items_of ?g elements_ex = (?g, elements_ex)" by (simp only: items_of_def)
  have jt: "items_of ?s elements_ex = (?s, elements_ex)" by (simp only: items_of_def)
  have ng: "fst (map_js counter_item ?g (snd counters_ex)) = [3, 4]" by code_simp
  have ns: "fst (map_js counter_item ?s (snd counters_ex)) = [3]" by code_simp
  have mg: "fst (map_js li_item ?g elements_ex) = [2, 3]" by code_simp
  have ms: "fst (map_js li_item ?s elements_ex) = [2]" by code_simp
  have bg: "map_js counter_item ?g (snd counters_ex) = ([3, 4], ?wg)"
    by (rule prod_eqI) (simp_all only: ng fst_conv snd_conv)
  have bs: "map_js counter_item ?s (snd counters_ex) = ([3], ?ws)"
    by (rule prod_eqI) (simp_all only: ns fst_conv snd_conv)
  have dg: "map_js li_item ?g elements_ex = ([2, 3], ?eg)"
    by (rule prod_eqI) (simp_all only: mg fst_conv snd_conv)
  have ds: "map_js li_item ?s elements_ex = ([2], ?es)"
    by (rule prod_eqI) (simp_all only: ms fst_conv snd_conv)
  have g0: "isCustomComponent (comps ?wg 0)" by code_simp
  have g3: "isCustomComponent (comps ?wg 3)" by code_simp
  have gs: "serial_of (comps ?wg 0) = serial_of (comps ?wg 3)" by code_simp
  have s0: "isCustomComponent (comps ?ws 0)" by code_simp
  have s3: "isCustomComponent (comps ?ws 3)" by code_simp
  have ss: "serial_of (comps ?ws 0) = serial_of (comps ?ws 3)" by code_simp
  have e0: "serial_of (comps ?eg 0) = None" by code_simp
  have e2: "\<not> isPlaceholder (comps ?eg 2)" by code_simp
  have f0: "serial_of (comps ?es 0) = None" by code_simp
  have cg: "calls (trace ?wg) = []" by code_simp
  have cs: "calls (trace ?ws) = []" by code_simp
  have ceg: "calls (trace ?eg) = []" by code_simp
  have ces: "calls (trace ?es) = []" by code_simp
  have pg: "props_of (comps ?wg 3) = Some [(''title'', Str ''a'')]" by code_simp
  have ps: "props_of (comps ?ws 3) = Some [(''title'', Str ''a'')]" by code_simp
  have fg: "f_components \<lparr>f_components = [0], f_unsubscribers = []\<rparr> = [0]" by simp
  have fs: "f_components \<lparr>f_components = [0, 1], f_unsubscribers = []\<rparr> = [0, 1]" by simp
  have grow: "\<exists>w3. for_rerender (items_of ?g) counter_item
            \<lparr>f_components = [0], f_unsubscribers = []\<rparr> (snd counters_ex) =
            Some ([0, 4], \<lparr>f_components = [0], f_unsubscribers = []\<rparr>\<lparr>f_components := [0, 4]\<rparr>, w3) \<and>
          calls (trace w3) =
            calls (trace ?wg) @ [(0, MReload (props_of (comps ?wg 3))), (0, MAppend 4), (4, MRender)]"
    by (rule for_grow_and_shrink [where items = "items_of ?g" and w = "snd counters_ex"
          and renderItem = counter_item, THEN conjunct1, THEN mp])
       (intro conjI, rule fg, rule ig, rule bg, rule g0, rule g3, rule gs)
  have shrink: "\<exists>w3. for_rerender (items_of ?s) counter_item
            \<lparr>f_components = [0, 1], f_unsubscribers = []\<rparr> (snd counters_ex) =
            Some ([0], \<lparr>f_components = [0, 1], f_unsubscribers = []\<rparr>\<lparr>f_components := [0]\<rparr>, w3) \<and>
          calls (trace w3) = calls (trace ?ws) @ [(0, MReload (props_of (comps ?ws 3))), (1, MDestroy)]"
    by (rule for_grow_and_shrink [where items = "items_of ?s" and w = "snd counters_ex"
          and renderItem = counter_item, THEN conjunct2, THEN conjunct1, THEN mp])
       (intro conjI, rule fs, rule it, rule bs, rule s0, rule s3, rule ss)
  have grow_li: "\<exists>w3. for_rerender (items_of ?g) li_item
            \<lparr>f_components = [0], f_unsubscribers = []\<rparr> elements_ex =
            Some ([2, 3], \<lparr>f_components = [0], f_unsubscribers = []\<rparr>\<lparr>f_components := [2, 3]\<rparr>, w3) \<and>
          calls (trace w3) =
            calls (trace ?eg) @ [(0, MReplace 2), (2, MRender), (2, MAppend 3), (3, MRender)]"
    by (rule for_grow_and_shrink [where items = "items_of ?g" and w = elements_ex
          and renderItem = li_item, THEN conjunct2, THEN conjunct2, THEN conjunct1, THEN mp])
       (intro conjI, rule fg, rule jg, rule dg, rule e0, rule e2)
  have shrink_li: "\<exists>w3. for_rerender (items_of ?s) li_item
            \<lparr>f_components = [0, 1], f_unsubscribers = []\<rparr> elements_ex =
            Some ([2], \<lparr>f_components = [0, 1], f_unsubscribers = []\<rparr>\<lparr>f_components := [2]\<rparr>, w3) \<and>
          calls (trace w3) = calls (trace ?es) @ [(0, MReplace 2), (2, MRender), (1, MDestroy)]"
    by (rule for_grow_and_shrink [where items = "items_of ?s" and w = elements_ex
          and renderItem = li_item, THEN conjunct2, THEN conjunct2, THEN conjunct2, THEN mp])
       (intro conjI, rule fs, rule jt, rule ds, rule f0)
  show ?thesis
    using grow shrink grow_li shrink_li unfolding cg cs ceg ces pg ps
    by (intro conjI)
qed

text \<open>
  \<^bold>\<open>C4.\<close> As stated, for a list renderer in general, the claim fails: entries that are not
  \<^verbatim>\<open>$\<close> instances are replaced at every retained index. The list renderer over
  \<^verbatim>\<open>(item) => li()(item)\<close> holds element 0; when the items grow from one to two, element 0
  receives \<^verbatim>\<open>replace\<close> with the new element 1 before element 2 is appended.
\<close>

theorem for_grow_counterexample:
  "f_components (fst (for_ex li_item [Str ''a''])) = [0] \<and>
   calls (trace (snd (for_ex li_item [Str ''a'']))) = [(0, MRender)] \<and>
   map_option fst grow_li = Some [1, 2] \<and>
   map_option (calls \<circ> trace \<circ> snd \<circ> snd) grow_li =
     Some [(0, MRender), (0, MReplace 1), (1, MRender), (1, MAppend 2), (2, MRender)]"
  by code_simp

end
